theory Spec2Isabelle
  imports Complex_Main
begin

section \<open>JavaScript numbers\<close>

text \<open>
  A JavaScript number is a finite binary64 value, one of the two infinities, or NaN. A finite
  value is represented by the real it denotes. An arithmetic operation returns the exact
  result rounded to the nearest binary64 value, ties to even, as IEEE 754 prescribes; the
  sign of zero is not modelled (every zero is taken as +0). The operations below are the
  ones \<^verbatim>\<open>script.js\<close> applies to numbers: \<^verbatim>\<open>/\<close>, \<^verbatim>\<open>*\<close>, \<^verbatim>\<open>-\<close>,
  \<^verbatim>\<open>Math.max\<close>, \<^verbatim>\<open>Math.floor\<close>, \<^verbatim>\<open>>=\<close> and \<^verbatim>\<open><=\<close>.
\<close>

datatype jsnum = Fin real | PosInf | NegInf | NaN

text \<open>
  The spacing of the binary64 values around a positive real \<open>a\<close>: the power of two \<open>u\<close>
  with \<open>2^52 * u \<le> a < 2^53 * u\<close>, searched upwards from \<open>2^-52\<close> when \<open>1 \<le> a\<close> and
  downwards otherwise, and never below \<open>2^-1074\<close>, the spacing of the subnormal numbers.
\<close>

fun ulp_up :: "nat \<Rightarrow> real \<Rightarrow> real \<Rightarrow> real" where
  "ulp_up n a u = (if n = 0 then u else if 2 ^ 53 * u \<le> a then ulp_up (n - 1) a (2 * u) else u)"

fun ulp_down :: "nat \<Rightarrow> real \<Rightarrow> real \<Rightarrow> real" where
  "ulp_down n a u = (if n = 0 then u else if a < 2 ^ 52 * u then ulp_down (n - 1) a (u / 2) else u)"

declare ulp_up.simps [simp del] ulp_down.simps [simp del]

definition ulp :: "real \<Rightarrow> real" where
  "ulp a = (if 1 \<le> a then ulp_up 1024 a (1 / 2 ^ 52) else ulp_down 1022 a (1 / 2 ^ 52))"

definition round_half_even :: "real \<Rightarrow> int" where
  "round_half_even q =
     (let f = \<lfloor>q\<rfloor>; d = q - of_int f
      in if d < 1 / 2 then f else if 1 / 2 < d then f + 1 else if even f then f else f + 1)"

text \<open>
  Rounding a real to binary64: the nearest multiple of the spacing, ties to the even
  multiple, and an infinity when the rounded magnitude reaches \<open>2^1024\<close>.
\<close>

definition binary64 :: "real \<Rightarrow> jsnum" where
  "binary64 x =
     (if x = 0 then Fin 0
      else let a = \<bar>x\<bar>; u = ulp a; y = of_int (round_half_even (a / u)) * u
           in if 2 ^ 1024 \<le> y then (if 0 < x then PosInf else NegInf)
              else Fin (if 0 < x then y else - y))"

fun js_div :: "jsnum \<Rightarrow> jsnum \<Rightarrow> jsnum" where
  "js_div NaN b = NaN"
| "js_div a NaN = NaN"
| "js_div (Fin x) (Fin y) =
     (if y \<noteq> 0 then binary64 (x / y)
      else if x = 0 then NaN else if 0 < x then PosInf else NegInf)"
| "js_div (Fin x) PosInf = Fin 0"
| "js_div (Fin x) NegInf = Fin 0"
| "js_div PosInf (Fin y) = (if 0 \<le> y then PosInf else NegInf)"
| "js_div NegInf (Fin y) = (if 0 \<le> y then NegInf else PosInf)"
| "js_div PosInf PosInf = NaN"
| "js_div PosInf NegInf = NaN"
| "js_div NegInf PosInf = NaN"
| "js_div NegInf NegInf = NaN"

fun js_mul :: "jsnum \<Rightarrow> jsnum \<Rightarrow> jsnum" where
  "js_mul NaN b = NaN"
| "js_mul a NaN = NaN"
| "js_mul (Fin x) (Fin y) = binary64 (x * y)"
| "js_mul (Fin x) PosInf = (if x = 0 then NaN else if 0 < x then PosInf else NegInf)"
| "js_mul (Fin x) NegInf = (if x = 0 then NaN else if 0 < x then NegInf else PosInf)"
| "js_mul PosInf (Fin y) = (if y = 0 then NaN else if 0 < y then PosInf else NegInf)"
| "js_mul NegInf (Fin y) = (if y = 0 then NaN else if 0 < y then NegInf else PosInf)"
| "js_mul PosInf PosInf = PosInf"
| "js_mul PosInf NegInf = NegInf"
| "js_mul NegInf PosInf = NegInf"
| "js_mul NegInf NegInf = PosInf"

fun js_sub :: "jsnum \<Rightarrow> jsnum \<Rightarrow> jsnum" where
  "js_sub NaN b = NaN"
| "js_sub a NaN = NaN"
| "js_sub (Fin x) (Fin y) = binary64 (x - y)"
| "js_sub (Fin x) PosInf = NegInf"
| "js_sub (Fin x) NegInf = PosInf"
| "js_sub PosInf (Fin y) = PosInf"
| "js_sub NegInf (Fin y) = NegInf"
| "js_sub PosInf PosInf = NaN"
| "js_sub PosInf NegInf = PosInf"
| "js_sub NegInf PosInf = NegInf"
| "js_sub NegInf NegInf = NaN"

text \<open>\<^verbatim>\<open>Math.max(a, b)\<close>: NaN as soon as one argument is NaN.\<close>

fun js_max :: "jsnum \<Rightarrow> jsnum \<Rightarrow> jsnum" where
  "js_max NaN b = NaN"
| "js_max a NaN = NaN"
| "js_max (Fin x) (Fin y) = Fin (max x y)"
| "js_max PosInf b = PosInf"
| "js_max a PosInf = PosInf"
| "js_max NegInf b = b"
| "js_max a NegInf = a"

fun js_floor :: "jsnum \<Rightarrow> jsnum" where
  "js_floor (Fin x) = Fin (of_int \<lfloor>x\<rfloor>)"
| "js_floor a = a"

text \<open>\<^verbatim>\<open>a <= b\<close>; every comparison with NaN is false.\<close>

fun js_le :: "jsnum \<Rightarrow> jsnum \<Rightarrow> bool" where
  "js_le NaN b = False"
| "js_le a NaN = False"
| "js_le (Fin x) (Fin y) = (x \<le> y)"
| "js_le NegInf b = True"
| "js_le a PosInf = True"
| "js_le PosInf b = False"
| "js_le a NegInf = False"

definition js_ge :: "jsnum \<Rightarrow> jsnum \<Rightarrow> bool" where
  "js_ge a b = js_le b a"

section \<open>Strings: \<^verbatim>\<open>Number.prototype.toString\<close> and \<^verbatim>\<open>String.prototype.padStart\<close>\<close>

definition digit_char :: "nat \<Rightarrow> char" where
  "digit_char d = ''0123456789'' ! d"

text \<open>The decimal representation of a non-negative integer, most significant digit first.\<close>

fun toString :: "nat \<Rightarrow> string" where
  "toString n =
     (if n < 10 then [digit_char n] else toString (n div 10) @ [digit_char (n mod 10)])"

declare toString.simps [simp del]

text \<open>
  \<^verbatim>\<open>s.padStart(targetLength, padString)\<close>: the string itself when it is long enough or
  the pad string is empty, otherwise the pad string repeated and truncated to the missing
  length, followed by the string.
\<close>

definition padStart :: "nat \<Rightarrow> string \<Rightarrow> string \<Rightarrow> string" where
  "padStart targetLength padString s =
     (if targetLength \<le> length s \<or> padString = [] then s
      else take (targetLength - length s)
             (concat (replicate (targetLength - length s) padString)) @ s)"

section \<open>Configuration constants\<close>

definition FRAME_PADDING :: nat where
  "FRAME_PADDING = 4"

definition FRAME_MAX_INDEX :: nat where
  "FRAME_MAX_INDEX = 1345"

section \<open>The browser objects the script works on\<close>

text \<open>
  An \<^verbatim>\<open>HTMLImageElement\<close> created by \<^verbatim>\<open>new Image()\<close>: its source and the state of
  its image request. \<^verbatim>\<open>onload\<close> fires when the request becomes completely available,
  \<^verbatim>\<open>onerror\<close> when it becomes broken; before that the slot is pending (unavailable, or
  partially available once the dimensions are known).
\<close>

datatype image_request =
    Unavailable
  | PartiallyAvailable nat nat
  | CompletelyAvailable nat nat
  | Broken

record html_image =
  img_src :: string
  img_request :: image_request

text \<open>
  \<^verbatim>\<open>img.width\<close> and \<^verbatim>\<open>img.height\<close> of an image that is not rendered in the document:
  the natural dimensions when the image is available, otherwise 0.
\<close>

fun request_width :: "image_request \<Rightarrow> nat" where
  "request_width Unavailable = 0"
| "request_width (PartiallyAvailable w h) = w"
| "request_width (CompletelyAvailable w h) = w"
| "request_width Broken = 0"

fun request_height :: "image_request \<Rightarrow> nat" where
  "request_height Unavailable = 0"
| "request_height (PartiallyAvailable w h) = h"
| "request_height (CompletelyAvailable w h) = h"
| "request_height Broken = 0"

definition img_width :: "html_image \<Rightarrow> nat" where
  "img_width img = request_width (img_request img)"

definition img_height :: "html_image \<Rightarrow> nat" where
  "img_height img = request_height (img_request img)"

text \<open>
  The drawing surface: the canvas element with its pixel dimensions and its bitmap. The
  bitmap is the list of paint operations applied since it was last blank, so \<open>[]\<close> is the
  fully transparent surface.
\<close>

datatype paint =
    ClearRect real real real real
  | DrawImage string real real real real

record canvas_element =
  width :: nat
  height :: nat
  bitmap :: "paint list"

datatype smoothing_quality = Low | Medium | High

record context2d =
  imageSmoothingEnabled :: bool
  imageSmoothingQuality :: smoothing_quality

definition default_context :: context2d where
  "default_context = \<lparr>imageSmoothingEnabled = True, imageSmoothingQuality = Low\<rparr>"

datatype js_exception = Error string | TypeError | InvalidStateError

text \<open>
  \<^verbatim>\<open>context.clearRect(x, y, w, h)\<close>: nothing when an argument is not finite; a rectangle
  that covers the whole canvas leaves the blank surface.
\<close>

fun clearRect :: "jsnum \<Rightarrow> jsnum \<Rightarrow> jsnum \<Rightarrow> jsnum \<Rightarrow> canvas_element \<Rightarrow> canvas_element" where
  "clearRect (Fin x) (Fin y) (Fin w) (Fin h) c =
     (if x \<le> 0 \<and> y \<le> 0 \<and> real (width c) \<le> x + w \<and> real (height c) \<le> y + h
      then c\<lparr>bitmap := []\<rparr>
      else c\<lparr>bitmap := bitmap c @ [ClearRect x y w h]\<rparr>)"
| "clearRect x y w h c = c"

text \<open>
  \<^verbatim>\<open>context.drawImage(img, dx, dy, dw, dh)\<close>, in the order of the HTML standard: return
  when an argument is infinite or NaN; throw InvalidStateError for a broken image; draw
  nothing for an image that is not fully decodable or has a natural dimension of zero;
  otherwise paint the image into the destination rectangle.
\<close>

fun drawImage ::
  "html_image \<Rightarrow> jsnum \<Rightarrow> jsnum \<Rightarrow> jsnum \<Rightarrow> jsnum \<Rightarrow> canvas_element
     \<Rightarrow> js_exception + canvas_element" where
  "drawImage img (Fin x) (Fin y) (Fin w) (Fin h) c =
     (case img_request img of
        Broken \<Rightarrow> Inl InvalidStateError
      | Unavailable \<Rightarrow> Inr c
      | PartiallyAvailable iw ih \<Rightarrow> Inr c
      | CompletelyAvailable iw ih \<Rightarrow>
          if iw = 0 \<or> ih = 0 then Inr c
          else Inr (c\<lparr>bitmap := bitmap c @ [DrawImage (img_src img) x y w h]\<rparr>))"
| "drawImage img dx dy dw dh c = Inr c"

text \<open>\<^verbatim>\<open>window.innerWidth\<close> and \<^verbatim>\<open>window.innerHeight\<close> at the time of a call.\<close>

record window =
  innerWidth :: nat
  innerHeight :: nat

text \<open>
  What the document answers at start-up: \<^verbatim>\<open>document.querySelector('canvas')\<close> and
  \<^verbatim>\<open>canvas.getContext('2d')\<close>, each possibly null.
\<close>

record document =
  querySelector_canvas :: "canvas_element option"
  getContext_2d :: "context2d option"

text \<open>
  \<^verbatim>\<open>array[index]\<close> for a number: the element when the number is a non-negative integer
  below the length, otherwise \<^verbatim>\<open>undefined\<close>.
\<close>

fun array_get :: "'a list \<Rightarrow> jsnum \<Rightarrow> 'a option" where
  "array_get xs (Fin r) =
     (if 0 \<le> r \<and> r = of_int \<lfloor>r\<rfloor> \<and> nat \<lfloor>r\<rfloor> < length xs
      then Some (xs ! nat \<lfloor>r\<rfloor>) else None)"
| "array_get xs a = None"

section \<open>The class \<^verbatim>\<open>DozeStudioAnimation\<close>\<close>

record frame_cursor =
  currentIndex :: jsnum
  maxIndex :: nat

text \<open>
  The fields of the object (\<open>drawing_context\<close> is \<^verbatim>\<open>this.context\<close>). \<open>notifications\<close> is not a field of the source: it counts the
  calls of \<^verbatim>\<open>onAllImagesLoaded\<close>, so that "fires exactly once" can be stated.
\<close>

record animation =
  canvas :: "canvas_element option"
  drawing_context :: "context2d option"
  frames :: frame_cursor
  images :: "html_image list"
  imagesLoaded :: nat
  isInitialized :: bool
  notifications :: nat

text \<open>
  A method returns the object as it has left it and the exception it has thrown, if any:
  the mutations made before a throw stay.
\<close>

type_synonym outcome = "animation \<times> js_exception option"

definition and_then :: "outcome \<Rightarrow> (animation \<Rightarrow> outcome) \<Rightarrow> outcome" where
  "and_then r f = (case r of (s, None) \<Rightarrow> f s | (s, Some e) \<Rightarrow> (s, Some e))"

definition generateImageUrl :: "nat \<Rightarrow> string" where
  "generateImageUrl index =
     (let paddedIndex = padStart FRAME_PADDING ''0'' (toString index)
      in ''./images/frame_'' @ paddedIndex @ ''.jpeg'')"

text \<open>
  Assigning \<^verbatim>\<open>canvas.width\<close> or \<^verbatim>\<open>canvas.height\<close> blanks the bitmap and resets the
  context to its defaults; on a null canvas the assignment throws a TypeError.
\<close>

definition resizeCanvas :: "window \<Rightarrow> animation \<Rightarrow> outcome" where
  "resizeCanvas win s =
     (case canvas s of
        None \<Rightarrow> (s, Some TypeError)
      | Some c \<Rightarrow>
          (s\<lparr>canvas := Some (c\<lparr>width := innerWidth win, height := innerHeight win, bitmap := []\<rparr>),
             drawing_context := map_option (\<lambda>ctx. default_context) (drawing_context s)\<rparr>, None))"

definition isValidFrameIndex :: "animation \<Rightarrow> jsnum \<Rightarrow> bool" where
  "isValidFrameIndex s index =
     (js_ge index (Fin 0) \<and> js_le index (Fin (real (maxIndex (frames s)))))"

text \<open>
  The numbers \<^verbatim>\<open>renderImage\<close> computes before it draws. The dimensions of a canvas
  and of an image are 32-bit integers in the DOM, so they are numbers as they stand; every
  operation on them rounds.
\<close>

record geometry =
  scale :: jsnum
  newWidth :: jsnum
  newHeight :: jsnum
  offsetX :: jsnum
  offsetY :: jsnum

definition render_geometry :: "nat \<Rightarrow> nat \<Rightarrow> html_image \<Rightarrow> geometry" where
  "render_geometry canvasWidth canvasHeight img =
     (let scaleX = js_div (Fin (real canvasWidth)) (Fin (real (img_width img)));
          scaleY = js_div (Fin (real canvasHeight)) (Fin (real (img_height img)));
          scale = js_max scaleX scaleY;
          newWidth = js_mul (Fin (real (img_width img))) scale;
          newHeight = js_mul (Fin (real (img_height img))) scale;
          offsetX = js_div (js_sub (Fin (real canvasWidth)) newWidth) (Fin 2);
          offsetY = js_div (js_sub (Fin (real canvasHeight)) newHeight) (Fin 2)
      in \<lparr>scale = scale, newWidth = newWidth, newHeight = newHeight,
          offsetX = offsetX, offsetY = offsetY\<rparr>)"

definition renderImage :: "html_image \<Rightarrow> animation \<Rightarrow> outcome" where
  "renderImage img s =
     (case canvas s of
        None \<Rightarrow> (s, Some TypeError)
      | Some c \<Rightarrow>
          (let g = render_geometry (width c) (height c) img
           in case drawing_context s of
                None \<Rightarrow> (s, Some TypeError)
              | Some ctx \<Rightarrow>
                  (let c1 = clearRect (Fin 0) (Fin 0) (Fin (real (width c))) (Fin (real (height c))) c;
                       ctx1 = ctx\<lparr>imageSmoothingEnabled := True, imageSmoothingQuality := High\<rparr>;
                       s1 = s\<lparr>canvas := Some c1, drawing_context := Some ctx1\<rparr>
                   in case drawImage img (offsetX g) (offsetY g) (newWidth g) (newHeight g) c1 of
                        Inl e \<Rightarrow> (s1, Some e)
                      | Inr c2 \<Rightarrow> (s1\<lparr>canvas := Some c2\<rparr>, None))))"

definition loadImage :: "window \<Rightarrow> animation \<Rightarrow> jsnum \<Rightarrow> outcome" where
  "loadImage win s index =
     (if \<not> isValidFrameIndex s index then (s, None)
      else case array_get (images s) index of
             None \<Rightarrow> (s, None)
           | Some img \<Rightarrow>
               and_then (and_then (resizeCanvas win s) (renderImage img))
                 (\<lambda>s'. (s'\<lparr>frames := (frames s')\<lparr>currentIndex := index\<rparr>\<rparr>, None)))"

text \<open>
  \<^verbatim>\<open>startAnimation\<close> hands the timeline to GSAP (or logs that GSAP is missing); it
  changes no field of the object.
\<close>

definition startAnimation :: "animation \<Rightarrow> outcome" where
  "startAnimation s = (s, None)"

definition onAllImagesLoaded :: "window \<Rightarrow> animation \<Rightarrow> outcome" where
  "onAllImagesLoaded win s =
     (let s1 = s\<lparr>isInitialized := True, notifications := notifications s + 1\<rparr>
      in and_then (loadImage win s1 (currentIndex (frames s1))) startAnimation)"

definition handleImageLoad :: "window \<Rightarrow> animation \<Rightarrow> outcome" where
  "handleImageLoad win s =
     (let s1 = s\<lparr>imagesLoaded := imagesLoaded s + 1\<rparr>
      in if imagesLoaded s1 = maxIndex (frames s1) then onAllImagesLoaded win s1 else (s1, None))"

text \<open>The frame number and the error are only logged.\<close>

definition handleImageLoadError :: "window \<Rightarrow> nat \<Rightarrow> animation \<Rightarrow> outcome" where
  "handleImageLoadError win index s =
     (let s1 = s\<lparr>imagesLoaded := imagesLoaded s + 1\<rparr>
      in if imagesLoaded s1 = maxIndex (frames s1) then onAllImagesLoaded win s1 else (s1, None))"

text \<open>The loop of \<^verbatim>\<open>preloadImages\<close>, from counter \<open>i\<close> on.\<close>

function preloadImages_from :: "nat \<Rightarrow> animation \<Rightarrow> animation" where
  "preloadImages_from i s =
     (if i \<le> maxIndex (frames s)
      then preloadImages_from (i + 1)
             (s\<lparr>images := images s @ [\<lparr>img_src = generateImageUrl i, img_request = Unavailable\<rparr>]\<rparr>)
      else s)"
  by pat_completeness auto
termination
  by (relation "measure (\<lambda>(i, s). Suc (maxIndex (frames s)) - i)") auto

declare preloadImages_from.simps [simp del]

definition preloadImages :: "animation \<Rightarrow> animation" where
  "preloadImages s = preloadImages_from 1 s"

definition initializeCanvas :: "document \<Rightarrow> window \<Rightarrow> animation \<Rightarrow> outcome" where
  "initializeCanvas doc win s =
     (let s1 = s\<lparr>canvas := querySelector_canvas doc\<rparr>
      in case canvas s1 of
           None \<Rightarrow> (s1, Some (Error ''Canvas element not found''))
         | Some c \<Rightarrow>
             (let s2 = s1\<lparr>drawing_context := getContext_2d doc\<rparr>
              in case drawing_context s2 of
                   None \<Rightarrow> (s2, Some (Error ''Failed to get canvas context''))
                 | Some ctx \<Rightarrow> resizeCanvas win s2))"

text \<open>
  \<^verbatim>\<open>init\<close> catches what its steps throw. Locomotive Scroll, the resize listener and the
  heading animations change no field of the object.
\<close>

definition init :: "document \<Rightarrow> window \<Rightarrow> animation \<Rightarrow> animation" where
  "init doc win s =
     (case initializeCanvas doc win s of
        (s1, Some e) \<Rightarrow> s1
      | (s1, None) \<Rightarrow> preloadImages s1)"

definition constructor :: "document \<Rightarrow> window \<Rightarrow> animation" where
  "constructor doc win =
     init doc win
       \<lparr>canvas = None, drawing_context = None,
        frames = \<lparr>currentIndex = Fin 0, maxIndex = FRAME_MAX_INDEX\<rparr>,
        images = [], imagesLoaded = 0, isInitialized = False, notifications = 0\<rparr>"

definition handleResize :: "window \<Rightarrow> animation \<Rightarrow> outcome" where
  "handleResize win s =
     (if isInitialized s then loadImage win s (js_floor (currentIndex (frames s))) else (s, None))"

definition loadFrame :: "window \<Rightarrow> jsnum \<Rightarrow> animation \<Rightarrow> outcome" where
  "loadFrame win index s = (if isInitialized s then loadImage win s index else (s, None))"

text \<open>The \<^verbatim>\<open>onUpdate\<close> callback of \<^verbatim>\<open>createFrameUpdate\<close>.\<close>

definition onUpdate :: "window \<Rightarrow> animation \<Rightarrow> outcome" where
  "onUpdate win s = loadImage win s (js_floor (currentIndex (frames s)))"

text \<open>The frame targets of \<^verbatim>\<open>buildAnimationTimeline\<close>, in order.\<close>

definition frame_targets :: "nat list" where
  "frame_targets =
     [100, 200, 220, 260, 270, 330, 360, 380, 400, 430, 460, 480, 500, 530, 550, 570]"

section \<open>The browser delivering load results\<close>

text \<open>
  The browser resolves the request of the image at array position \<open>k\<close> (created for frame
  \<open>k + 1\<close>) and calls the handler the script has installed on it.
\<close>

datatype load_event = LoadSucceeded nat nat nat | LoadFailed nat

definition set_request :: "nat \<Rightarrow> image_request \<Rightarrow> html_image list \<Rightarrow> html_image list" where
  "set_request k r imgs = (if k < length imgs then imgs[k := (imgs ! k)\<lparr>img_request := r\<rparr>] else imgs)"

fun deliver :: "window \<Rightarrow> load_event \<Rightarrow> animation \<Rightarrow> outcome" where
  "deliver win (LoadSucceeded k w h) s =
     handleImageLoad win (s\<lparr>images := set_request k (CompletelyAvailable w h) (images s)\<rparr>)"
| "deliver win (LoadFailed k) s =
     handleImageLoadError win (k + 1) (s\<lparr>images := set_request k Broken (images s)\<rparr>)"

text \<open>
  A sequence of deliveries; an exception that escapes a handler is reported by the browser
  and does not stop the later ones.
\<close>

fun deliver_all :: "window \<Rightarrow> load_event list \<Rightarrow> animation \<Rightarrow> animation" where
  "deliver_all win [] s = s"
| "deliver_all win (e # es) s = deliver_all win es (fst (deliver win e s))"

section \<open>Statements of the specification, in its own words\<close>

text \<open>The index zero-padded to exactly four decimal digits.\<close>

definition zero_padded4 :: "nat \<Rightarrow> string" where
  "zero_padded4 i =
     [digit_char (i div 1000 mod 10), digit_char (i div 100 mod 10),
      digit_char (i div 10 mod 10), digit_char (i mod 10)]"

text \<open>
  The invariant of the frame cursor, \<open>0 \<le> currentIndex \<le> maxIndex\<close>; an infinite or NaN
  cursor is outside the range.
\<close>

definition cursor_in_range :: "animation \<Rightarrow> bool" where
  "cursor_in_range s =
     (case currentIndex (frames s) of
        Fin r \<Rightarrow> 0 \<le> r \<and> r \<le> real (maxIndex (frames s))
      | PosInf \<Rightarrow> False | NegInf \<Rightarrow> False | NaN \<Rightarrow> False)"

section \<open>Auxiliary notions for the proofs\<close>

text \<open>
  What \<^verbatim>\<open>drawImage\<close> paints for a loaded image: the image in the destination rectangle,
  and nothing when an argument is infinite or NaN.
\<close>

fun draw_at :: "string \<Rightarrow> jsnum \<Rightarrow> jsnum \<Rightarrow> jsnum \<Rightarrow> jsnum \<Rightarrow> paint list" where
  "draw_at src (Fin x) (Fin y) (Fin w) (Fin h) = [DrawImage src x y w h]"
| "draw_at src x y w h = []"

text \<open>What a delivery does to the array of images, and the slot it resolves.\<close>

fun resolve :: "load_event \<Rightarrow> html_image list \<Rightarrow> html_image list" where
  "resolve (LoadSucceeded k w h) imgs = set_request k (CompletelyAvailable w h) imgs"
| "resolve (LoadFailed k) imgs = set_request k Broken imgs"

fun event_slot :: "load_event \<Rightarrow> nat" where
  "event_slot (LoadSucceeded k w h) = k"
| "event_slot (LoadFailed k) = k"

text \<open>The array \<^verbatim>\<open>preloadImages\<close> builds: one pending image per frame, in order.\<close>

definition initial_images :: "html_image list" where
  "initial_images =
     map (\<lambda>j. \<lparr>img_src = generateImageUrl j, img_request = Unavailable\<rparr>) [1..<Suc FRAME_MAX_INDEX]"

section \<open>A complete run\<close>

text \<open>
  A page with a canvas and a 2D context in an 800 by 600 window. Every load resolves: the
  image of frame 1 (slot 0) succeeds first, the image of frame 2 (slot 1) fails, the others
  succeed in order, each 400 by 300. \<open>example_ready\<close> is the object after the last
  delivery, which has run \<^verbatim>\<open>onAllImagesLoaded\<close>.
\<close>

definition example_window :: window where
  "example_window = \<lparr>innerWidth = 800, innerHeight = 600\<rparr>"

definition example_document :: document where
  "example_document =
     \<lparr>querySelector_canvas = Some \<lparr>width = 300, height = 150, bitmap = []\<rparr>,
      getContext_2d = Some default_context\<rparr>"

definition example_events :: "load_event list" where
  "example_events =
     LoadSucceeded 0 400 300 # LoadFailed 1 # map (\<lambda>k. LoadSucceeded k 400 300) [2..<1345]"

definition example_ready :: animation where
  "example_ready = deliver_all example_window example_events (constructor example_document example_window)"

section \<open>Resource locators\<close>

lemma toString_lt10: "n < 10 \<Longrightarrow> toString n = [digit_char n]"
  by (simp add: toString.simps)

lemma toString_ge10:
  "10 \<le> n \<Longrightarrow> toString n = toString (n div 10) @ [digit_char (n mod 10)]"
  by (subst toString.simps) simp

lemma toString_lt100:
  "10 \<le> n \<Longrightarrow> n < 100 \<Longrightarrow> toString n = [digit_char (n div 10), digit_char (n mod 10)]"
  by (simp add: toString_ge10 toString_lt10)

lemma toString_lt1000:
  assumes "100 \<le> n" "n < 1000"
  shows "toString n = [digit_char (n div 100), digit_char (n div 10 mod 10), digit_char (n mod 10)]"
proof -
  have "10 \<le> n div 10" "n div 10 < 100"
    using assms by simp_all
  then have "toString (n div 10) = [digit_char (n div 10 div 10), digit_char (n div 10 mod 10)]"
    by (rule toString_lt100)
  moreover have "n div 10 div 10 = n div 100"
    by (simp add: div_mult2_eq[symmetric])
  ultimately show ?thesis
    using assms by (simp add: toString_ge10)
qed

lemma toString_lt10000:
  assumes "1000 \<le> n" "n < 10000"
  shows "toString n = [digit_char (n div 1000), digit_char (n div 100 mod 10),
                       digit_char (n div 10 mod 10), digit_char (n mod 10)]"
proof -
  have "100 \<le> n div 10" "n div 10 < 1000"
    using assms by simp_all
  then have "toString (n div 10) =
      [digit_char (n div 10 div 100), digit_char (n div 10 div 10 mod 10), digit_char (n div 10 mod 10)]"
    by (rule toString_lt1000)
  moreover have "n div 10 div 100 = n div 1000" "n div 10 div 10 = n div 100"
    by (simp_all add: div_mult2_eq[symmetric])
  ultimately show ?thesis
    using assms by (simp add: toString_ge10)
qed

lemma replicate3: "replicate 3 x = [x, x, x]"
  by (simp add: numeral_3_eq_3)

lemma replicate2: "replicate 2 x = [x, x]"
  by (simp add: numeral_2_eq_2)

lemma padStart_toString:
  assumes "i < 10000"
  shows "padStart FRAME_PADDING ''0'' (toString i) = zero_padded4 i"
proof -
  consider "i < 10" | "10 \<le> i" "i < 100" | "100 \<le> i" "i < 1000" | "1000 \<le> i"
    by linarith
  then show ?thesis
  proof cases
    case 1
    then show ?thesis
      by (simp add: toString_lt10 padStart_def FRAME_PADDING_def zero_padded4_def
          digit_char_def replicate3)
  next
    case 2
    then show ?thesis
      by (simp add: toString_lt100 padStart_def FRAME_PADDING_def zero_padded4_def
          digit_char_def replicate2)
  next
    case 3
    then show ?thesis
      by (simp add: toString_lt1000 padStart_def FRAME_PADDING_def zero_padded4_def
          digit_char_def)
  next
    case 4
    with assms show ?thesis
      by (simp add: toString_lt10000 padStart_def FRAME_PADDING_def zero_padded4_def)
  qed
qed

lemma generateImageUrl_padded:
  "i < 10000 \<Longrightarrow> generateImageUrl i = ''./images/frame_'' @ zero_padded4 i @ ''.jpeg''"
  by (simp add: generateImageUrl_def padStart_toString)

section \<open>Rounding to binary64\<close>

text \<open>
  The rounded value is a nearest multiple of the spacing: it differs from the exact one by at
  most half the spacing, that is by a relative error of at most \<open>2^-53\<close>, or by
  \<open>2^-1075\<close> among the subnormal numbers. Moderate values stay finite.
\<close>

lemma round_half_even_error: "\<bar>real_of_int (round_half_even q) - q\<bar> \<le> 1 / 2"
proof -
  define f where "f = \<lfloor>q\<rfloor>"
  define d where "d = q - real_of_int f"
  have d: "0 \<le> d" "d < 1"
    unfolding d_def f_def by linarith+
  have r: "round_half_even q =
      (if d < 1 / 2 then f else if 1 / 2 < d then f + 1 else if even f then f else f + 1)"
    by (simp add: round_half_even_def Let_def f_def d_def)
  have q: "q = real_of_int f + d"
    by (simp add: d_def)
  show ?thesis
    unfolding r unfolding q using d by (auto simp: abs_if)
qed

lemma ulp_up_pos: "0 < u \<Longrightarrow> 0 < ulp_up n a u"
proof (induction n arbitrary: u)
  case 0
  then show ?case by (simp add: ulp_up.simps)
next
  case (Suc n)
  then show ?case by (subst ulp_up.simps) simp
qed

lemma ulp_up_le: "2 ^ 52 * u \<le> a \<Longrightarrow> 2 ^ 52 * ulp_up n a u \<le> a"
proof (induction n arbitrary: u)
  case 0
  then show ?case by (simp add: ulp_up.simps)
next
  case (Suc n)
  show ?case
  proof (cases "2 ^ 53 * u \<le> a")
    case True
    then have "2 ^ 52 * (2 * u) \<le> a"
      by simp
    then have "2 ^ 52 * ulp_up n a (2 * u) \<le> a"
      by (rule Suc.IH)
    with True show ?thesis
      by (subst ulp_up.simps) simp
  next
    case False
    with Suc.prems show ?thesis
      by (subst ulp_up.simps) simp
  qed
qed

lemma ulp_down_pos: "0 < u \<Longrightarrow> 0 < ulp_down n a u"
proof (induction n arbitrary: u)
  case 0
  then show ?case by (simp add: ulp_down.simps)
next
  case (Suc n)
  then show ?case by (subst ulp_down.simps) simp
qed

lemma ulp_down_cases:
  "2 ^ 52 * ulp_down n a u \<le> a \<or> ulp_down n a u = u / 2 ^ n"
proof (induction n arbitrary: u)
  case 0
  then show ?case by (simp add: ulp_down.simps)
next
  case (Suc n)
  show ?case
  proof (cases "a < 2 ^ 52 * u")
    case True
    then have e: "ulp_down (Suc n) a u = ulp_down n a (u / 2)"
      by (subst ulp_down.simps) simp
    show ?thesis
      using Suc.IH [of "u / 2"] unfolding e by simp
  next
    case False
    then have "ulp_down (Suc n) a u = u"
      by (subst ulp_down.simps) simp
    with False show ?thesis
      by simp
  qed
qed

lemma ulp_pos: "0 < ulp a"
  by (simp add: ulp_def ulp_up_pos ulp_down_pos)

lemma ulp_bound: "2 ^ 52 * ulp a \<le> a \<or> ulp a = 1 / 2 ^ 1074"
proof (cases "1 \<le> a")
  case True
  then have "2 ^ 52 * (1 / 2 ^ 52) \<le> a"
    by simp
  then have "2 ^ 52 * ulp_up 1024 a (1 / 2 ^ 52) \<le> a"
    by (rule ulp_up_le)
  with True show ?thesis
    by (simp add: ulp_def)
next
  case False
  have "(1 / 2 ^ 52) / 2 ^ 1022 = (1::real) / 2 ^ 1074"
    by (simp add: power_add [symmetric])
  with False ulp_down_cases [of 1022 a "1 / 2 ^ 52"] show ?thesis
    by (simp add: ulp_def)
qed

lemma rounded_magnitude:
  "\<bar>real_of_int (round_half_even (a / ulp a)) * ulp a - a\<bar> \<le> ulp a / 2"
proof -
  let ?u = "ulp a"
  let ?m = "real_of_int (round_half_even (a / ?u))"
  have u: "0 < ?u"
    by (rule ulp_pos)
  have "?m * ?u - a = (?m - a / ?u) * ?u"
    using u by (simp add: left_diff_distrib)
  then have "\<bar>?m * ?u - a\<bar> = \<bar>?m - a / ?u\<bar> * ?u"
    using u by (simp only: abs_mult abs_of_pos)
  also have "\<dots> \<le> 1 / 2 * ?u"
    using round_half_even_error [of "a / ?u"] u by (intro mult_right_mono) simp_all
  finally show ?thesis
    by simp
qed

lemma binary64_error:
  assumes "binary64 x = Fin y"
  shows "\<bar>y - x\<bar> \<le> ulp \<bar>x\<bar> / 2"
proof (cases "x = 0")
  case True
  with assms show ?thesis
    using ulp_pos [of 0] by (simp add: binary64_def)
next
  case False
  let ?u = "ulp \<bar>x\<bar>"
  let ?m = "real_of_int (round_half_even (\<bar>x\<bar> / ?u))"
  have y: "y = (if 0 < x then ?m * ?u else - (?m * ?u))"
    using assms False by (simp add: binary64_def Let_def split: if_splits)
  show ?thesis
    using rounded_magnitude [of "\<bar>x\<bar>"] unfolding y
    by (cases "0 < x") (simp_all add: abs_if split: if_splits)
qed

lemma binary64_relative_error:
  assumes "binary64 x = Fin y"
  shows "\<bar>y - x\<bar> \<le> max (\<bar>x\<bar> / 2 ^ 53) (1 / 2 ^ 1075)"
proof -
  have e: "\<bar>y - x\<bar> \<le> ulp \<bar>x\<bar> / 2"
    using assms by (rule binary64_error)
  from ulp_bound [of "\<bar>x\<bar>"] show ?thesis
  proof
    assume "2 ^ 52 * ulp \<bar>x\<bar> \<le> \<bar>x\<bar>"
    then have "ulp \<bar>x\<bar> / 2 \<le> \<bar>x\<bar> / 2 ^ 53"
      by (simp add: field_simps)
    with e show ?thesis
      by (simp add: max_def)
  next
    assume "ulp \<bar>x\<bar> = 1 / 2 ^ 1074"
    then have "ulp \<bar>x\<bar> / 2 = 1 / 2 ^ 1075"
      by simp
    with e show ?thesis
      by (simp add: max_def)
  qed
qed

lemma binary64_bounded:
  assumes "\<bar>x\<bar> \<le> B" "B < 2 ^ 1022"
  shows "\<exists>y. binary64 x = Fin y \<and> \<bar>y\<bar> \<le> 2 * B + 1"
proof (cases "x = 0")
  case True
  with assms show ?thesis
    by (simp add: binary64_def)
next
  case False
  let ?a = "\<bar>x\<bar>"
  let ?u = "ulp ?a"
  let ?y = "real_of_int (round_half_even (?a / ?u)) * ?u"
  have e: "\<bar>?y - ?a\<bar> \<le> ?u / 2"
    by (rule rounded_magnitude)
  have "?u / 2 \<le> max (?a / 2 ^ 53) (1 / 2 ^ 1075)"
  proof -
    from ulp_bound [of ?a] show ?thesis
    proof
      assume "2 ^ 52 * ?u \<le> ?a"
      then have "?u / 2 \<le> ?a / 2 ^ 53"
        by (simp add: field_simps)
      then show ?thesis
        by (simp add: max_def)
    next
      assume "?u = 1 / 2 ^ 1074"
      then show ?thesis
        by (simp add: max_def)
    qed
  qed
  also have "\<dots> \<le> ?a + 1"
    by (simp add: field_simps)
  finally have u: "?u / 2 \<le> ?a + 1" .
  have b: "\<bar>?y\<bar> \<le> 2 * B + 1"
    using e u assms(1) by (simp add: abs_if split: if_splits)
  have "(2::real) * 2 ^ 1022 + 1 \<le> 2 ^ 1024"
    by simp
  with b assms(2) have "\<not> 2 ^ 1024 \<le> ?y"
    by (simp add: abs_if split: if_splits)
  then have "binary64 x = Fin (if 0 < x then ?y else - ?y)"
    using False by (simp add: binary64_def Let_def)
  moreover have "\<bar>if 0 < x then ?y else - ?y\<bar> = \<bar>?y\<bar>"
    by simp
  ultimately show ?thesis
    using b by metis
qed



lemma binary64_fin:
  assumes "\<bar>x\<bar> \<le> 2 ^ k" "k \<le> 1000"
  shows "\<exists>y. binary64 x = Fin y \<and> \<bar>y\<bar> \<le> 2 ^ (k + 2)"
proof -
  have "(2::real) ^ k \<le> 2 ^ 1000"
    using assms(2) by (intro power_increasing) simp_all
  moreover have "(2::real) ^ 1000 < 2 ^ 1022"
    by (intro power_strict_increasing) simp_all
  ultimately have "(2::real) ^ k < 2 ^ 1022"
    by (rule le_less_trans)
  with assms(1) obtain y where y: "binary64 x = Fin y" "\<bar>y\<bar> \<le> 2 * 2 ^ k + 1"
    using binary64_bounded by blast
  have "(1::real) \<le> 2 ^ k"
    by simp
  then have "2 * 2 ^ k + 1 \<le> (2::real) ^ k * 4"
    by linarith
  then have "2 * 2 ^ k + 1 \<le> (2::real) ^ (k + 2)"
    by (simp add: power_add)
  with y show ?thesis
    by (metis order_trans)
qed

lemma binary64_zero: "binary64 0 = Fin 0"
  by (simp add: binary64_def)

text \<open>
  The roundings the examples below need. Some are not exact: 1000 / 1920 is rounded up, and
  1920 times the rounded quotient is \<open>1000 + 2^-43\<close>, not 1000; 93 times the rounded
  1000 / 93 is \<open>1000 - 2^-43\<close>.
\<close>

lemma binary64_values:
  "binary64 2 = Fin 2"
  "binary64 (5 / 2) = Fin (5 / 2)"
  "binary64 (5 / 4) = Fin (5 / 4)"
  "binary64 600 = Fin 600"
  "binary64 750 = Fin 750"
  "binary64 800 = Fin 800"
  "binary64 1000 = Fin 1000"
  "binary64 (- 125) = Fin (- 125)"
  "binary64 (- 250) = Fin (- 250)"
  "binary64 (- 500) = Fin (- 500)"
  "binary64 (- (125 / 2)) = Fin (- (125 / 2))"
  "binary64 (- (125 / 4)) = Fin (- (125 / 4))"
  "binary64 (5 / 3) = Fin (7505999378950827 / 4503599627370496)"
  "binary64 (25 / 48) = Fin (4691249611844267 / 9007199254740992)"
  "binary64 (25 / 54) = Fin (8339999309945363 / 18014398509481984)"
  "binary64 (70368744177664005 / 70368744177664) = Fin (8796093022208001 / 8796093022208)"
  "binary64 (633318697598976045 / 1125899906842624) = Fin (1125 / 2)"
  "binary64 (- (1 / 8796093022208)) = Fin (- (1 / 8796093022208))"
  "binary64 (- (1 / 17592186044416)) = Fin (- (1 / 17592186044416))"
  "binary64 (1000 / 93) = Fin (6053225305605505 / 562949953421312)"
  "binary64 (500 / 93) = Fin (6053225305605505 / 1125899906842624)"
  "binary64 (562949953421311965 / 562949953421312) = Fin (8796093022207999 / 8796093022208)"
  "binary64 (1 / 8796093022208) = Fin (1 / 8796093022208)"
  "binary64 (1 / 17592186044416) = Fin (1 / 17592186044416)"
  "binary64 (- (4398046511103999 / 8796093022208)) = Fin (- (4398046511103999 / 8796093022208))"
  "binary64 (- (4398046511103999 / 17592186044416)) = Fin (- (4398046511103999 / 17592186044416))"
  unfolding binary64_def Let_def
  by (simp_all add: ulp_def ulp_up.simps ulp_down.simps round_half_even_def Let_def)

section \<open>Rendering a frame\<close>

lemma render_geometry_800_600_400_300:
  "img_request img = CompletelyAvailable 400 300 \<Longrightarrow>
   render_geometry 800 600 img =
     \<lparr>scale = Fin 2, newWidth = Fin 800, newHeight = Fin 600, offsetX = Fin 0, offsetY = Fin 0\<rparr>"
  by (simp add: render_geometry_def img_width_def img_height_def Let_def binary64_values
      binary64_zero)

lemma render_geometry_1000_500_400_300:
  "img_request img = CompletelyAvailable 400 300 \<Longrightarrow>
   render_geometry 1000 500 img =
     \<lparr>scale = Fin (5 / 2), newWidth = Fin 1000, newHeight = Fin 750,
      offsetX = Fin 0, offsetY = Fin (- 125)\<rparr>"
  by (simp add: render_geometry_def img_width_def img_height_def Let_def binary64_values
      binary64_zero)



lemma render_geometry_1000_500_93_93:
  "img_request img = CompletelyAvailable 93 93 \<Longrightarrow>
   render_geometry 1000 500 img =
     \<lparr>scale = Fin (6053225305605505 / 562949953421312),
      newWidth = Fin (8796093022207999 / 8796093022208),
      newHeight = Fin (8796093022207999 / 8796093022208),
      offsetX = Fin (1 / 17592186044416),
      offsetY = Fin (- (4398046511103999 / 17592186044416))\<rparr>"
  by (simp add: render_geometry_def img_width_def img_height_def Let_def binary64_values
      binary64_zero)


lemma render_geometry_finite:
  assumes r: "img_request img = CompletelyAvailable w h" and w: "0 < w" and h: "0 < h"
    and b: "W < 2 ^ 32" "H < 2 ^ 32" "w < 2 ^ 32" "h < 2 ^ 32"
  shows "\<exists>sc dw dh x y. render_geometry W H img =
     \<lparr>scale = Fin sc, newWidth = Fin dw, newHeight = Fin dh, offsetX = Fin x, offsetY = Fin y\<rparr>"
proof -
  have z: "img_width img = w" "img_height img = h"
    using r by (auto simp: img_width_def img_height_def)
  have rb: "real W \<le> 2 ^ 32" "real H \<le> 2 ^ 32" "real w \<le> 2 ^ 32" "real h \<le> 2 ^ 32"
    using b by (simp_all add: less_imp_le flip: of_nat_le_iff of_nat_less_iff)
  have q: "\<bar>real n / real d\<bar> \<le> 2 ^ 32" if "0 < d" "real n \<le> 2 ^ 32" for n d :: nat
  proof -
    have "real n / real d \<le> real n / 1"
      using that(1) by (intro frac_le) simp_all
    with that(2) show ?thesis
      by simp
  qed
  obtain sx where sx: "binary64 (real W / real w) = Fin sx" "\<bar>sx\<bar> \<le> 2 ^ 34"
    using binary64_fin [OF q [OF w rb(1)]] by auto
  obtain sy where sy: "binary64 (real H / real h) = Fin sy" "\<bar>sy\<bar> \<le> 2 ^ 34"
    using binary64_fin [OF q [OF h rb(2)]] by auto
  define sc where "sc = max sx sy"
  have sc: "\<bar>sc\<bar> \<le> 2 ^ 34"
    using sx(2) sy(2) by (simp add: sc_def max_def)
  have m: "\<bar>real d * sc\<bar> \<le> 2 ^ 66" if "real d \<le> 2 ^ 32" for d :: nat
  proof -
    have "\<bar>real d * sc\<bar> = real d * \<bar>sc\<bar>"
      by (simp add: abs_mult)
    also have "\<dots> \<le> 2 ^ 32 * 2 ^ 34"
      using that sc by (intro mult_mono) simp_all
    finally show ?thesis
      by simp
  qed
  obtain dw where dw: "binary64 (real w * sc) = Fin dw" "\<bar>dw\<bar> \<le> 2 ^ 68"
    using binary64_fin [OF m [OF rb(3)]] by auto
  obtain dh where dh: "binary64 (real h * sc) = Fin dh" "\<bar>dh\<bar> \<le> 2 ^ 68"
    using binary64_fin [OF m [OF rb(4)]] by auto
  have s: "\<bar>real n - d\<bar> \<le> 2 ^ 69" if "real n \<le> 2 ^ 32" "\<bar>d\<bar> \<le> 2 ^ 68" for n :: nat and d :: real
    using that by (simp add: abs_if split: if_splits)
  obtain ex where ex: "binary64 (real W - dw) = Fin ex" "\<bar>ex\<bar> \<le> 2 ^ 71"
    using binary64_fin [OF s [OF rb(1) dw(2)]] by auto
  obtain ey where ey: "binary64 (real H - dh) = Fin ey" "\<bar>ey\<bar> \<le> 2 ^ 71"
    using binary64_fin [OF s [OF rb(2) dh(2)]] by auto
  have hf: "\<bar>e / 2\<bar> \<le> 2 ^ 71" if "\<bar>e\<bar> \<le> 2 ^ 71" for e :: real
    using that by simp
  obtain x where x: "binary64 (ex / 2) = Fin x"
    using binary64_fin [OF hf [OF ex(2)]] by auto
  obtain y where y: "binary64 (ey / 2) = Fin y"
    using binary64_fin [OF hf [OF ey(2)]] by auto
  have "render_geometry W H img =
     \<lparr>scale = Fin sc, newWidth = Fin dw, newHeight = Fin dh, offsetX = Fin x, offsetY = Fin y\<rparr>"
    using w h by (simp add: render_geometry_def Let_def z sx sy sc_def [symmetric] dw dh ex ey x y)
  then show ?thesis
    by blast
qed

lemma draw_at_finite:
  assumes "img_request img = CompletelyAvailable w h" and "0 < w" and "0 < h"
    and "W < 2 ^ 32" "H < 2 ^ 32" "w < 2 ^ 32" "h < 2 ^ 32"
  shows "\<exists>x y dw dh.
     draw_at src (offsetX (render_geometry W H img)) (offsetY (render_geometry W H img))
       (newWidth (render_geometry W H img)) (newHeight (render_geometry W H img)) =
     [DrawImage src x y dw dh]"
proof -
  obtain sc dw dh x y where "render_geometry W H img =
     \<lparr>scale = Fin sc, newWidth = Fin dw, newHeight = Fin dh, offsetX = Fin x, offsetY = Fin y\<rparr>"
    using render_geometry_finite [OF assms] by blast
  then show ?thesis
    by simp
qed

lemma render_geometry_zero_width:
  assumes "img_width img = 0" "img_height img = 0"
  shows "newWidth (render_geometry W H img) = NaN"
  using assms by (cases "W = 0"; cases "H = 0") (simp_all add: render_geometry_def Let_def)

lemma drawImage_NaN: "drawImage img x y NaN h c = Inr c"
  by (cases x; cases y) simp_all

lemma loadImage_invalid:
  "\<not> isValidFrameIndex s idx \<Longrightarrow> loadImage win s idx = (s, None)"
  by (simp add: loadImage_def)

lemma loadImage_undefined:
  "array_get (images s) idx = None \<Longrightarrow> loadImage win s idx = (s, None)"
  by (simp add: loadImage_def)

lemma loadImage_unavailable:
  assumes "canvas s = Some c" "drawing_context s = Some ctx"
    and "isValidFrameIndex s idx" "array_get (images s) idx = Some img"
    and "img_request img = Unavailable \<or> img_request img = Broken"
  shows "loadImage win s idx =
     (s\<lparr>canvas := Some \<lparr>width = innerWidth win, height = innerHeight win, bitmap = []\<rparr>,
        drawing_context := Some \<lparr>imageSmoothingEnabled = True, imageSmoothingQuality = High\<rparr>,
        frames := (frames s)\<lparr>currentIndex := idx\<rparr>\<rparr>, None)"
proof -
  have z: "img_width img = 0" "img_height img = 0"
    using assms(5) by (auto simp: img_width_def img_height_def)
  have n: "newWidth (render_geometry W H img) = NaN" for W H
    using z by (rule render_geometry_zero_width)
  show ?thesis
    using assms(1-4)
    by (simp add: loadImage_def and_then_def resizeCanvas_def renderImage_def Let_def n
        drawImage_NaN default_context_def)
qed

lemma drawImage_drawable:
  assumes "img_request img = CompletelyAvailable w h" "0 < w" "0 < h"
  shows "drawImage img x y dw dh c =
     Inr (c\<lparr>bitmap := bitmap c @ draw_at (img_src img) x y dw dh\<rparr>)"
  using assms by (cases x; cases y; cases dw; cases dh) simp_all

lemma loadImage_drawable:
  assumes "canvas s = Some c" "drawing_context s = Some ctx"
    and "isValidFrameIndex s idx" "array_get (images s) idx = Some img"
    and "img_request img = CompletelyAvailable w h" "0 < w" "0 < h"
  shows "loadImage win s idx =
     (s\<lparr>canvas := Some \<lparr>width = innerWidth win, height = innerHeight win,
          bitmap = draw_at (img_src img)
            (offsetX (render_geometry (innerWidth win) (innerHeight win) img))
            (offsetY (render_geometry (innerWidth win) (innerHeight win) img))
            (newWidth (render_geometry (innerWidth win) (innerHeight win) img))
            (newHeight (render_geometry (innerWidth win) (innerHeight win) img))\<rparr>,
        drawing_context := Some \<lparr>imageSmoothingEnabled = True, imageSmoothingQuality = High\<rparr>,
        frames := (frames s)\<lparr>currentIndex := idx\<rparr>\<rparr>, None)"
  using assms(1-4)
  by (simp add: loadImage_def and_then_def resizeCanvas_def renderImage_def Let_def
      drawImage_drawable [OF assms(5-7)] default_context_def)

lemma drawImage_not_Broken:
  "img_request img \<noteq> Broken \<Longrightarrow> \<exists>c'. drawImage img x y w h c = Inr c'"
  by (cases x; cases y; cases w; cases h) (auto split: image_request.splits)

lemma drawImage_geometry_no_throw:
  "\<exists>c'. drawImage img (offsetX (render_geometry W H img)) (offsetY (render_geometry W H img))
      (newWidth (render_geometry W H img)) (newHeight (render_geometry W H img)) c = Inr c'"
proof (cases "img_request img = Broken")
  case True
  then have "img_width img = 0" "img_height img = 0"
    by (simp_all add: img_width_def img_height_def)
  then have "newWidth (render_geometry W H img) = NaN"
    by (rule render_geometry_zero_width)
  then show ?thesis
    by (simp add: drawImage_NaN)
next
  case False
  then show ?thesis
    by (rule drawImage_not_Broken)
qed

lemma renderImage_no_throw:
  assumes "canvas s = Some c" "drawing_context s = Some ctx"
  shows "snd (renderImage img s) = None"
proof -
  obtain c' where "drawImage img (offsetX (render_geometry (width c) (height c) img))
      (offsetY (render_geometry (width c) (height c) img))
      (newWidth (render_geometry (width c) (height c) img))
      (newHeight (render_geometry (width c) (height c) img))
      (clearRect (Fin 0) (Fin 0) (Fin (real (width c))) (Fin (real (height c))) c) = Inr c'"
    using drawImage_geometry_no_throw by blast
  then show ?thesis
    using assms by (simp add: renderImage_def Let_def)
qed

lemma loadImage_no_throw:
  assumes "canvas s = Some c" "drawing_context s = Some ctx"
  shows "snd (loadImage win s idx) = None"
proof -
  have "snd (renderImage img (fst (resizeCanvas win s))) = None" for img
    using assms by (intro renderImage_no_throw[where c = "c\<lparr>width := innerWidth win, height := innerHeight win, bitmap := []\<rparr>" and ctx = default_context])
      (simp_all add: resizeCanvas_def)
  moreover have "resizeCanvas win s = (fst (resizeCanvas win s), None)"
    using assms by (simp add: resizeCanvas_def)
  ultimately show ?thesis
    by (auto simp: loadImage_def and_then_def split: option.splits prod.splits)
      (metis option.distinct(1) snd_conv)
qed

lemma loadImage_fields:
  "images (fst (loadImage win s idx)) = images s"
  "imagesLoaded (fst (loadImage win s idx)) = imagesLoaded s"
  "isInitialized (fst (loadImage win s idx)) = isInitialized s"
  "notifications (fst (loadImage win s idx)) = notifications s"
  "maxIndex (frames (fst (loadImage win s idx))) = maxIndex (frames s)"
  by (simp_all add: loadImage_def and_then_def resizeCanvas_def renderImage_def Let_def
      split: option.splits sum.splits)

lemma loadImage_currentIndex:
  "currentIndex (frames (fst (loadImage win s idx))) = currentIndex (frames s)
   \<or> (currentIndex (frames (fst (loadImage win s idx))) = idx \<and> isValidFrameIndex s idx)"
  by (simp add: loadImage_def and_then_def resizeCanvas_def renderImage_def Let_def
      split: option.splits sum.splits)

lemma loadImage_present:
  "canvas s \<noteq> None \<Longrightarrow> canvas (fst (loadImage win s idx)) \<noteq> None"
  "drawing_context s \<noteq> None \<Longrightarrow> drawing_context (fst (loadImage win s idx)) \<noteq> None"
  by (auto simp add: loadImage_def and_then_def resizeCanvas_def renderImage_def Let_def
      split: option.splits sum.splits)

section \<open>The load callbacks\<close>

lemma fst_and_then_startAnimation: "fst (and_then r startAnimation) = fst r"
  by (cases r) (simp add: and_then_def startAnimation_def split: option.splits)

lemma onAllImagesLoaded_fields:
  "images (fst (onAllImagesLoaded win s)) = images s"
  "imagesLoaded (fst (onAllImagesLoaded win s)) = imagesLoaded s"
  "isInitialized (fst (onAllImagesLoaded win s)) = True"
  "notifications (fst (onAllImagesLoaded win s)) = notifications s + 1"
  "maxIndex (frames (fst (onAllImagesLoaded win s))) = maxIndex (frames s)"
  by (simp_all add: onAllImagesLoaded_def Let_def fst_and_then_startAnimation loadImage_fields)

lemma handleImageLoadError_eq: "handleImageLoadError win i s = handleImageLoad win s"
  by (simp add: handleImageLoadError_def handleImageLoad_def)

lemma handleImageLoad_fields:
  "images (fst (handleImageLoad win s)) = images s"
  "imagesLoaded (fst (handleImageLoad win s)) = imagesLoaded s + 1"
  "isInitialized (fst (handleImageLoad win s)) =
     (isInitialized s \<or> imagesLoaded s + 1 = maxIndex (frames s))"
  "notifications (fst (handleImageLoad win s)) =
     notifications s + (if imagesLoaded s + 1 = maxIndex (frames s) then 1 else 0)"
  "maxIndex (frames (fst (handleImageLoad win s))) = maxIndex (frames s)"
  by (simp_all add: handleImageLoad_def Let_def onAllImagesLoaded_fields)

lemma deliver_fields:
  "imagesLoaded (fst (deliver win e s)) = imagesLoaded s + 1"
  "isInitialized (fst (deliver win e s)) =
     (isInitialized s \<or> imagesLoaded s + 1 = maxIndex (frames s))"
  "notifications (fst (deliver win e s)) =
     notifications s + (if imagesLoaded s + 1 = maxIndex (frames s) then 1 else 0)"
  "maxIndex (frames (fst (deliver win e s))) = maxIndex (frames s)"
  by (cases e; simp add: handleImageLoadError_eq handleImageLoad_fields)+

lemma deliver_all_counts:
  "imagesLoaded (deliver_all win es s) = imagesLoaded s + length es
   \<and> maxIndex (frames (deliver_all win es s)) = maxIndex (frames s)
   \<and> notifications (deliver_all win es s) =
       notifications s +
         (if imagesLoaded s < maxIndex (frames s) \<and> maxIndex (frames s) \<le> imagesLoaded s + length es
          then 1 else 0)
   \<and> isInitialized (deliver_all win es s) =
       (isInitialized s \<or>
         (imagesLoaded s < maxIndex (frames s) \<and> maxIndex (frames s) \<le> imagesLoaded s + length es))"
proof (induction es arbitrary: s)
  case Nil
  then show ?case by auto
next
  case (Cons e es)
  show ?case
    by (auto simp add: Cons.IH deliver_fields)
qed

section \<open>The constructor\<close>

lemma preloadImages_from_eq:
  "i \<le> Suc (maxIndex (frames s)) \<Longrightarrow>
   preloadImages_from i s =
     s\<lparr>images := images s @
         map (\<lambda>j. \<lparr>img_src = generateImageUrl j, img_request = Unavailable\<rparr>)
           [i..<Suc (maxIndex (frames s))]\<rparr>"
proof (induction i s rule: preloadImages_from.induct)
  case (1 i s)
  show ?case
  proof (cases "i \<le> maxIndex (frames s)")
    case True
    then have "[i..<Suc (maxIndex (frames s))] = i # [Suc i..<Suc (maxIndex (frames s))]"
      by (simp add: upt_conv_Cons)
    with True "1.IH" show ?thesis
      by (subst preloadImages_from.simps) simp
  next
    case False
    with "1.prems" have "i = Suc (maxIndex (frames s))"
      by simp
    then show ?thesis
      by (subst preloadImages_from.simps) simp
  qed
qed

lemma constructor_eq:
  assumes "querySelector_canvas doc = Some c0" "getContext_2d doc = Some ctx0"
  shows "constructor doc win =
     \<lparr>canvas = Some \<lparr>width = innerWidth win, height = innerHeight win, bitmap = []\<rparr>,
      drawing_context = Some default_context,
      frames = \<lparr>currentIndex = Fin 0, maxIndex = FRAME_MAX_INDEX\<rparr>,
      images = map (\<lambda>j. \<lparr>img_src = generateImageUrl j, img_request = Unavailable\<rparr>)
                 [1..<Suc FRAME_MAX_INDEX],
      imagesLoaded = 0, isInitialized = False, notifications = 0\<rparr>"
  using assms
  by (simp add: constructor_def init_def initializeCanvas_def resizeCanvas_def Let_def
      preloadImages_def preloadImages_from_eq)

lemma constructor_counters:
  "imagesLoaded (constructor doc win) = 0"
  "notifications (constructor doc win) = 0"
  "isInitialized (constructor doc win) = False"
  "frames (constructor doc win) = \<lparr>currentIndex = Fin 0, maxIndex = FRAME_MAX_INDEX\<rparr>"
  by (simp_all add: constructor_def init_def initializeCanvas_def resizeCanvas_def Let_def
      preloadImages_def preloadImages_from_eq split: option.splits)

section \<open>Array lookup\<close>

lemma array_get_Some_iff:
  "(array_get xs idx \<noteq> None) = (\<exists>k<length xs. idx = Fin (real k))"
proof (cases idx)
  case (Fin r)
  show ?thesis
  proof
    assume "array_get xs idx \<noteq> None"
    then have r: "0 \<le> r" "r = of_int \<lfloor>r\<rfloor>" "nat \<lfloor>r\<rfloor> < length xs"
      using Fin by (auto split: if_splits)
    then have "r = real (nat \<lfloor>r\<rfloor>)"
      by (metis of_int_of_nat_eq of_nat_nat zero_le_floor)
    with r Fin show "\<exists>k<length xs. idx = Fin (real k)"
      by blast
  next
    assume "\<exists>k<length xs. idx = Fin (real k)"
    then show "array_get xs idx \<noteq> None"
      by auto
  qed
qed simp_all

lemma array_get_nat:
  "k < length xs \<Longrightarrow> array_get xs (Fin (real k)) = Some (xs ! k)"
  by simp

lemma array_get_length: "array_get xs (Fin (real (length xs))) = None"
  by simp

lemma example_constructor:
  "constructor example_document win =
     \<lparr>canvas = Some \<lparr>width = innerWidth win, height = innerHeight win, bitmap = []\<rparr>,
      drawing_context = Some default_context,
      frames = \<lparr>currentIndex = Fin 0, maxIndex = FRAME_MAX_INDEX\<rparr>,
      images = map (\<lambda>j. \<lparr>img_src = generateImageUrl j, img_request = Unavailable\<rparr>)
                 [1..<Suc FRAME_MAX_INDEX],
      imagesLoaded = 0, isInitialized = False, notifications = 0\<rparr>"
  by (rule constructor_eq) (simp_all add: example_document_def)


lemma resizeCanvas_present:
  assumes "canvas s = Some c" "drawing_context s = Some ctx"
  shows "resizeCanvas win s =
     (s\<lparr>canvas := Some (c\<lparr>width := innerWidth win, height := innerHeight win, bitmap := []\<rparr>),
        drawing_context := Some default_context\<rparr>, None)"
  using assms by (simp add: resizeCanvas_def)

section \<open>Deliveries\<close>

lemma deliver_images: "images (fst (deliver win e s)) = resolve e (images s)"
  by (cases e) (simp_all add: handleImageLoadError_eq handleImageLoad_fields)

lemma deliver_pending:
  "imagesLoaded s + 1 \<noteq> maxIndex (frames s) \<Longrightarrow>
   deliver win e s = (s\<lparr>images := resolve e (images s), imagesLoaded := imagesLoaded s + 1\<rparr>, None)"
  by (cases e) (simp_all add: handleImageLoadError_eq handleImageLoad_def)

lemma deliver_last:
  "imagesLoaded s + 1 = maxIndex (frames s) \<Longrightarrow>
   deliver win e s =
     onAllImagesLoaded win (s\<lparr>images := resolve e (images s), imagesLoaded := imagesLoaded s + 1\<rparr>)"
  by (cases e) (simp_all add: handleImageLoadError_eq handleImageLoad_def)

lemma deliver_all_pending:
  "imagesLoaded s + length es < maxIndex (frames s) \<Longrightarrow>
   deliver_all win es s =
     s\<lparr>images := fold resolve es (images s), imagesLoaded := imagesLoaded s + length es\<rparr>"
proof (induction es arbitrary: s)
  case Nil
  then show ?case by simp
next
  case (Cons e es)
  then show ?case
    by (simp add: deliver_pending)
qed

lemma deliver_all_snoc:
  "deliver_all win (es @ [e]) s = fst (deliver win e (deliver_all win es s))"
  by (induction es arbitrary: s) simp_all

lemma set_request_length: "length (set_request k r imgs) = length imgs"
  by (simp add: set_request_def)

lemma resolve_length: "length (resolve e imgs) = length imgs"
  by (cases e) (simp_all add: set_request_length)

lemma fold_resolve_length: "length (fold resolve es imgs) = length imgs"
  by (induction es arbitrary: imgs) (simp_all add: resolve_length)

lemma resolve_nth_other: "j \<noteq> event_slot e \<Longrightarrow> resolve e imgs ! j = imgs ! j"
  by (cases e) (simp_all add: set_request_def)

lemma fold_resolve_nth_other:
  "j \<notin> event_slot ` set es \<Longrightarrow> fold resolve es imgs ! j = imgs ! j"
  by (induction es arbitrary: imgs) (simp_all add: resolve_nth_other)

lemma resolve_img_src: "map img_src (resolve e imgs) = map img_src imgs"
  by (cases e) (simp_all add: set_request_def map_update list_update_same_conv)

lemma fold_resolve_img_src: "map img_src (fold resolve es imgs) = map img_src imgs"
  by (induction es arbitrary: imgs) (simp_all add: resolve_img_src)

section \<open>The complete run, evaluated\<close>

declare upt_rec_numeral [simp del]

lemma initial_images_length: "length initial_images = 1345"
  by (simp add: initial_images_def FRAME_MAX_INDEX_def)

lemma initial_images_nth:
  "k < 1345 \<Longrightarrow> initial_images ! k = \<lparr>img_src = generateImageUrl (Suc k), img_request = Unavailable\<rparr>"
  by (simp add: initial_images_def FRAME_MAX_INDEX_def del: upt_Suc)

lemma example_events_split:
  "example_events =
     (LoadSucceeded 0 400 300 # LoadFailed 1 # map (\<lambda>k. LoadSucceeded k 400 300) [2..<1344])
       @ [LoadSucceeded 1344 400 300]"
proof -
  have "[2..<Suc 1344] = [2..<1344] @ [1344]"
    by (rule upt_Suc_append) simp
  moreover have "(1345::nat) = Suc 1344"
    by simp
  ultimately have "[2..<1345] = [2..<1344] @ [1344::nat]"
    by (simp only:)
  then show ?thesis
    by (simp only: example_events_def map_append list.map append_Cons append_Nil)
qed

lemma example_events_fold:
  "fold resolve example_events imgs =
     resolve (LoadSucceeded 1344 400 300)
       (fold resolve
          (LoadSucceeded 0 400 300 # LoadFailed 1 # map (\<lambda>k. LoadSucceeded k 400 300) [2..<1344])
          imgs)"
  by (subst example_events_split) (simp only: fold_append fold_simps comp_apply)

lemma generateImageUrl_1: "generateImageUrl (Suc 0) = ''./images/frame_0001.jpeg''"
  by (simp add: generateImageUrl_padded zero_padded4_def digit_char_def)

lemma generateImageUrl_2: "generateImageUrl (Suc (Suc 0)) = ''./images/frame_0002.jpeg''"
  by (simp add: generateImageUrl_padded zero_padded4_def digit_char_def)

lemma example_images_0:
  "fold resolve example_events initial_images ! 0 =
     \<lparr>img_src = ''./images/frame_0001.jpeg'', img_request = CompletelyAvailable 400 300\<rparr>"
proof -
  have "0 \<notin> event_slot ` set (map (\<lambda>k. LoadSucceeded k 400 300) [2..<1345])"
    by auto
  then have "fold resolve example_events initial_images ! 0
      = resolve (LoadFailed 1) (resolve (LoadSucceeded 0 400 300) initial_images) ! 0"
    unfolding example_events_def fold_simps by (rule fold_resolve_nth_other)
  also have "\<dots> = resolve (LoadSucceeded 0 400 300) initial_images ! 0"
    by (rule resolve_nth_other) simp
  finally show ?thesis
    by (simp add: set_request_def initial_images_length initial_images_nth generateImageUrl_1)
qed

lemma example_images_1:
  "fold resolve example_events initial_images ! 1 =
     \<lparr>img_src = ''./images/frame_0002.jpeg'', img_request = Broken\<rparr>"
proof -
  have "1 \<notin> event_slot ` set (map (\<lambda>k. LoadSucceeded k 400 300) [2..<1345])"
    by auto
  then have "fold resolve example_events initial_images ! 1
      = resolve (LoadFailed 1) (resolve (LoadSucceeded 0 400 300) initial_images) ! 1"
    unfolding example_events_def fold_simps by (rule fold_resolve_nth_other)
  then show ?thesis
    by (simp add: set_request_def initial_images_length initial_images_nth generateImageUrl_2)
qed

lemma example_ready_eq:
  "example_ready =
     \<lparr>canvas = Some \<lparr>width = 800, height = 600,
        bitmap = [DrawImage ''./images/frame_0001.jpeg'' 0 0 800 600]\<rparr>,
      drawing_context = Some \<lparr>imageSmoothingEnabled = True, imageSmoothingQuality = High\<rparr>,
      frames = \<lparr>currentIndex = Fin 0, maxIndex = 1345\<rparr>,
      images = fold resolve example_events initial_images,
      imagesLoaded = 1345, isInitialized = True, notifications = 1\<rparr>"
proof -
  let ?front = "LoadSucceeded 0 400 300 # LoadFailed 1 # map (\<lambda>k. LoadSucceeded k 400 300) [2..<1344]"
  let ?s0 = "constructor example_document example_window"
  have s0: "?s0 =
     \<lparr>canvas = Some \<lparr>width = 800, height = 600, bitmap = []\<rparr>,
      drawing_context = Some default_context,
      frames = \<lparr>currentIndex = Fin 0, maxIndex = 1345\<rparr>,
      images = initial_images,
      imagesLoaded = 0, isInitialized = False, notifications = 0\<rparr>"
    by (simp add: example_constructor example_window_def initial_images_def FRAME_MAX_INDEX_def
        del: upt_Suc)
  have lf: "length ?front = 1344"
    by simp
  have "imagesLoaded ?s0 + length ?front < maxIndex (frames ?s0)"
    unfolding lf by (simp add: s0)
  then have front: "deliver_all example_window ?front ?s0 =
      ?s0\<lparr>images := fold resolve ?front (images ?s0),
          imagesLoaded := imagesLoaded ?s0 + length ?front\<rparr>"
    by (rule deliver_all_pending)
  let ?s1 = "\<lparr>canvas = Some \<lparr>width = 800, height = 600, bitmap = []\<rparr>,
      drawing_context = Some default_context,
      frames = \<lparr>currentIndex = Fin 0, maxIndex = 1345\<rparr>,
      images = fold resolve ?front initial_images,
      imagesLoaded = 1344, isInitialized = False, notifications = 0\<rparr>"
  have s1: "deliver_all example_window ?front ?s0 = ?s1"
    unfolding front lf by (simp add: s0)
  let ?s2 = "\<lparr>canvas = Some \<lparr>width = 800, height = 600, bitmap = []\<rparr>,
      drawing_context = Some default_context,
      frames = \<lparr>currentIndex = Fin 0, maxIndex = 1345\<rparr>,
      images = fold resolve example_events initial_images,
      imagesLoaded = 1345, isInitialized = True, notifications = 1\<rparr>"
  have "example_ready = fst (deliver example_window (LoadSucceeded 1344 400 300) ?s1)"
    unfolding example_ready_def by (subst example_events_split) (simp only: deliver_all_snoc s1)
  also have "deliver example_window (LoadSucceeded 1344 400 300) ?s1 =
      onAllImagesLoaded example_window
        (?s1\<lparr>images := resolve (LoadSucceeded 1344 400 300) (images ?s1),
             imagesLoaded := imagesLoaded ?s1 + 1\<rparr>)"
    by (rule deliver_last) simp
  also have "fst \<dots> = fst (loadImage example_window ?s2 (Fin 0))"
    unfolding example_events_fold
    by (simp add: onAllImagesLoaded_def fst_and_then_startAnimation)
  also have "loadImage example_window ?s2 (Fin 0) =
     (?s2\<lparr>canvas := Some \<lparr>width = innerWidth example_window, height = innerHeight example_window,
          bitmap = draw_at (img_src (fold resolve example_events initial_images ! 0))
            (offsetX (render_geometry (innerWidth example_window) (innerHeight example_window) (fold resolve example_events initial_images ! 0)))
            (offsetY (render_geometry (innerWidth example_window) (innerHeight example_window) (fold resolve example_events initial_images ! 0)))
            (newWidth (render_geometry (innerWidth example_window) (innerHeight example_window) (fold resolve example_events initial_images ! 0)))
            (newHeight (render_geometry (innerWidth example_window) (innerHeight example_window) (fold resolve example_events initial_images ! 0)))\<rparr>,
        drawing_context := Some \<lparr>imageSmoothingEnabled = True, imageSmoothingQuality = High\<rparr>,
        frames := (frames ?s2)\<lparr>currentIndex := Fin 0\<rparr>\<rparr>, None)"
  proof (rule loadImage_drawable)
    show "isValidFrameIndex ?s2 (Fin 0)"
      by (simp add: isValidFrameIndex_def js_ge_def)
    show "array_get (images ?s2) (Fin 0) = Some (fold resolve example_events initial_images ! 0)"
      by (simp add: fold_resolve_length initial_images_length)
    show "img_request (fold resolve example_events initial_images ! 0) = CompletelyAvailable 400 300"
      by (simp add: example_images_0)
  qed simp_all
  finally show ?thesis
    by (simp add: example_window_def example_images_0 render_geometry_800_600_400_300)
qed

lemma example_ready_fields:
  "canvas example_ready = Some \<lparr>width = 800, height = 600,
        bitmap = [DrawImage ''./images/frame_0001.jpeg'' 0 0 800 600]\<rparr>"
  "drawing_context example_ready = Some \<lparr>imageSmoothingEnabled = True, imageSmoothingQuality = High\<rparr>"
  "frames example_ready = \<lparr>currentIndex = Fin 0, maxIndex = 1345\<rparr>"
  "images example_ready = fold resolve example_events initial_images"
  "imagesLoaded example_ready = 1345"
  "isInitialized example_ready = True"
  "notifications example_ready = 1"
  by (simp_all add: example_ready_eq)

lemma example_ready_length: "length (images example_ready) = 1345"
  by (simp add: example_ready_fields fold_resolve_length initial_images_length)

lemma example_slot_1:
  "array_get (images example_ready) (Fin 1) =
     Some \<lparr>img_src = ''./images/frame_0002.jpeg'', img_request = Broken\<rparr>"
proof -
  have "images example_ready ! 1 = \<lparr>img_src = ''./images/frame_0002.jpeg'', img_request = Broken\<rparr>"
    by (simp only: example_ready_fields example_images_1)
  then show ?thesis
    using array_get_nat [of 1 "images example_ready"] by (simp add: example_ready_length)
qed

lemma example_loadImage_1:
  "loadImage example_window example_ready (Fin 1) =
     (example_ready\<lparr>canvas := Some \<lparr>width = 800, height = 600, bitmap = []\<rparr>,
        frames := \<lparr>currentIndex = Fin 1, maxIndex = 1345\<rparr>\<rparr>, None)"
proof -
  have v: "isValidFrameIndex example_ready (Fin 1)"
    by (simp add: isValidFrameIndex_def js_ge_def example_ready_fields)
  show ?thesis
    unfolding loadImage_unavailable [OF example_ready_fields(1,2) v example_slot_1,
        of example_window, simplified]
    by (simp add: example_window_def example_ready_eq)
qed

section \<open>The cursor stays in range\<close>

lemma cursor_in_range_iff:
  "cursor_in_range s = isValidFrameIndex s (currentIndex (frames s))"
  by (cases "currentIndex (frames s)")
    (simp_all add: cursor_in_range_def isValidFrameIndex_def js_ge_def)

lemma isValidFrameIndex_maxIndex:
  "maxIndex (frames s') = maxIndex (frames s) \<Longrightarrow> isValidFrameIndex s' i = isValidFrameIndex s i"
  by (simp add: isValidFrameIndex_def)

lemma loadImage_cursor:
  assumes "cursor_in_range s"
  shows "cursor_in_range (fst (loadImage win s idx))"
proof -
  let ?s' = "fst (loadImage win s idx)"
  have "maxIndex (frames ?s') = maxIndex (frames s)"
    by (rule loadImage_fields(5))
  then have v: "isValidFrameIndex ?s' j = isValidFrameIndex s j" for j
    by (rule isValidFrameIndex_maxIndex)
  from loadImage_currentIndex [of win s idx] show ?thesis
  proof
    assume "currentIndex (frames ?s') = currentIndex (frames s)"
    then show ?thesis
      using assms by (simp only: cursor_in_range_iff v)
  next
    assume "currentIndex (frames ?s') = idx \<and> isValidFrameIndex s idx"
    then show ?thesis
      by (simp only: cursor_in_range_iff v)
  qed
qed

lemma cursor_in_range_update:
  "cursor_in_range (s\<lparr>canvas := c\<rparr>) = cursor_in_range s"
  "cursor_in_range (s\<lparr>drawing_context := x\<rparr>) = cursor_in_range s"
  "cursor_in_range (s\<lparr>images := imgs\<rparr>) = cursor_in_range s"
  "cursor_in_range (s\<lparr>imagesLoaded := n\<rparr>) = cursor_in_range s"
  "cursor_in_range (s\<lparr>isInitialized := b\<rparr>) = cursor_in_range s"
  "cursor_in_range (s\<lparr>notifications := m\<rparr>) = cursor_in_range s"
  by (simp_all add: cursor_in_range_iff isValidFrameIndex_def)

lemma onAllImagesLoaded_cursor:
  "cursor_in_range s \<Longrightarrow> cursor_in_range (fst (onAllImagesLoaded win s))"
  by (simp add: onAllImagesLoaded_def Let_def fst_and_then_startAnimation loadImage_cursor
      cursor_in_range_update)

lemma handleImageLoad_cursor:
  "cursor_in_range s \<Longrightarrow> cursor_in_range (fst (handleImageLoad win s))"
  by (simp add: handleImageLoad_def Let_def onAllImagesLoaded_cursor cursor_in_range_update)

lemma deliver_cursor:
  "cursor_in_range s \<Longrightarrow> cursor_in_range (fst (deliver win e s))"
  by (cases e)
    (simp_all add: handleImageLoadError_eq handleImageLoad_cursor cursor_in_range_update)

lemma deliver_all_cursor:
  "cursor_in_range s \<Longrightarrow> cursor_in_range (deliver_all win es s)"
  by (induction es arbitrary: s) (simp_all add: deliver_cursor)

lemma resizeCanvas_cursor:
  "cursor_in_range s \<Longrightarrow> cursor_in_range (fst (resizeCanvas win s))"
  by (simp add: cursor_in_range_update resizeCanvas_def split: option.splits)

lemma constructor_cursor: "cursor_in_range (constructor doc win)"
  by (simp add: cursor_in_range_iff isValidFrameIndex_def js_ge_def constructor_counters)

section \<open>Distinct frames have distinct locators\<close>

lemma digit_char_code: "d < 10 \<Longrightarrow> (of_char (digit_char d) :: nat) = 48 + d"
proof -
  assume "d < 10"
  then have "d = 0 \<or> d = 1 \<or> d = 2 \<or> d = 3 \<or> d = 4 \<or> d = 5 \<or> d = 6 \<or> d = 7 \<or> d = 8 \<or> d = 9"
    by arith
  then show ?thesis
    by (elim disjE) (simp_all add: digit_char_def)
qed

lemma digit_char_inj:
  assumes "a < 10" "b < 10" "digit_char a = digit_char b"
  shows "a = b"
proof -
  have "(of_char (digit_char a) :: nat) = of_char (digit_char b)"
    using assms(3) by simp
  then show ?thesis
    using assms(1,2) by (simp add: digit_char_code)
qed

lemma four_digits:
  fixes n :: nat
  assumes "n < 10000"
  shows "n = 1000 * (n div 1000 mod 10) + 100 * (n div 100 mod 10) + 10 * (n div 10 mod 10) + n mod 10"
proof -
  have a: "n = 10 * (n div 10) + n mod 10"
    by simp
  have "n div 10 div 10 = n div 100"
    by (simp add: div_mult2_eq [symmetric])
  then have b: "n div 10 = 10 * (n div 100) + n div 10 mod 10"
    using mult_div_mod_eq [of 10 "n div 10"] by simp
  have "n div 100 div 10 = n div 1000"
    by (simp add: div_mult2_eq [symmetric])
  then have c: "n div 100 = 10 * (n div 1000) + n div 100 mod 10"
    using mult_div_mod_eq [of 10 "n div 100"] by simp
  have "n div 1000 < 10"
    using assms by simp
  then have d: "n div 1000 mod 10 = n div 1000"
    by simp
  show ?thesis
    unfolding d using a b c by linarith
qed

lemma zero_padded4_inj:
  assumes "i < 10000" "j < 10000" "zero_padded4 i = zero_padded4 j"
  shows "i = j"
proof -
  have "digit_char (i div 1000 mod 10) = digit_char (j div 1000 mod 10)"
    "digit_char (i div 100 mod 10) = digit_char (j div 100 mod 10)"
    "digit_char (i div 10 mod 10) = digit_char (j div 10 mod 10)"
    "digit_char (i mod 10) = digit_char (j mod 10)"
    using assms(3) by (simp_all add: zero_padded4_def)
  then have d: "i div 1000 mod 10 = j div 1000 mod 10" "i div 100 mod 10 = j div 100 mod 10"
    "i div 10 mod 10 = j div 10 mod 10" "i mod 10 = j mod 10"
    by (simp_all add: digit_char_inj)
  show ?thesis
    by (subst four_digits [OF assms(1)], subst four_digits [OF assms(2)]) (simp only: d)
qed

lemma generateImageUrl_inj:
  assumes "i < 10000" "j < 10000" "generateImageUrl i = generateImageUrl j"
  shows "i = j"
  using assms by (simp add: generateImageUrl_padded zero_padded4_inj)

lemma srcs_nth:
  assumes "map img_src imgs = map generateImageUrl [1..<Suc n]" "k < n"
  shows "img_src (imgs ! k) = generateImageUrl (Suc k)"
proof -
  have l: "length imgs = n"
    using arg_cong [OF assms(1), of length] by simp
  have "img_src (imgs ! k) = map img_src imgs ! k"
    using l assms(2) by simp
  also have "\<dots> = generateImageUrl ([1..<Suc n] ! k)"
    unfolding assms(1) using assms(2) by (simp del: upt_Suc)
  also have "[1..<Suc n] ! k = Suc k"
    using assms(2) by (simp del: upt_Suc)
  finally show ?thesis .
qed

lemma generateImageUrl_1345: "generateImageUrl 1345 = ''./images/frame_1345.jpeg''"
  by (simp add: generateImageUrl_padded zero_padded4_def digit_char_def)

section \<open>The claims of the specification\<close>

text \<open>
  C1. The specification says that rendering an index whose image failed to load changes
  nothing. In the complete run above the canvas shows frame 1 and the cursor is 0; the image
  in slot 1 is broken, yet the lookup returns the image object, and \<^verbatim>\<open>loadImage(1)\<close>
  resizes and clears the canvas, draws nothing and moves the cursor to 1: the guard
  \<^verbatim>\<open>if (!img)\<close> only catches a missing array element.
\<close>

theorem loadImage_failed_slot_clears_surface:
  "array_get (images example_ready) (Fin 1) =
     Some \<lparr>img_src = ''./images/frame_0002.jpeg'', img_request = Broken\<rparr>
   \<and> canvas example_ready =
     Some \<lparr>width = 800, height = 600,
       bitmap = [DrawImage ''./images/frame_0001.jpeg'' 0 0 800 600]\<rparr>
   \<and> currentIndex (frames example_ready) = Fin 0
   \<and> loadImage example_window example_ready (Fin 1) =
     (example_ready\<lparr>canvas := Some \<lparr>width = 800, height = 600, bitmap = []\<rparr>,
        frames := \<lparr>currentIndex = Fin 1, maxIndex = 1345\<rparr>\<rparr>, None)
   \<and> loadImage example_window example_ready (Fin 1) \<noteq> (example_ready, None)"
proof -
  have "example_ready\<lparr>canvas := Some \<lparr>width = 800, height = 600, bitmap = []\<rparr>,
        frames := \<lparr>currentIndex = Fin 1, maxIndex = 1345\<rparr>\<rparr> \<noteq> example_ready"
    by (simp add: example_ready_eq)
  with example_slot_1 example_loadImage_1 show ?thesis
    by (simp add: example_ready_fields)
qed

text \<open>
  C2. Each success callback and each error callback adds exactly one to the resolved count,
  and a delivery calls \<^verbatim>\<open>onAllImagesLoaded\<close> exactly when it brings the count to
  \<open>maxIndex\<close>. So after any sequence of deliveries to a new object, whatever the mix of
  successes and failures, the number of all-resolved notifications is 0 before the 1345th
  delivery and 1 from it on.
\<close>

theorem all_loaded_fires_once:
  "imagesLoaded (fst (handleImageLoad win s)) = imagesLoaded s + 1
   \<and> imagesLoaded (fst (handleImageLoadError win i s)) = imagesLoaded s + 1
   \<and> notifications (fst (deliver win e s)) =
       notifications s + (if imagesLoaded s + 1 = maxIndex (frames s) then 1 else 0)
   \<and> imagesLoaded (deliver_all win es (constructor doc win0)) = length es
   \<and> notifications (deliver_all win es (constructor doc win0)) =
       (if FRAME_MAX_INDEX \<le> length es then 1 else 0)
   \<and> isInitialized (deliver_all win es (constructor doc win0)) = (FRAME_MAX_INDEX \<le> length es)
   \<and> FRAME_MAX_INDEX = 1345"
proof -
  have "0 < FRAME_MAX_INDEX"
    by (simp add: FRAME_MAX_INDEX_def)
  then show ?thesis
    by (simp add: handleImageLoadError_eq handleImageLoad_fields deliver_fields
        deliver_all_counts constructor_counters) (simp add: FRAME_MAX_INDEX_def)
qed

theorem all_loaded_fires_once_witness:
  "notifications (deliver_all example_window
      (map (\<lambda>k. LoadSucceeded k 400 300) [0..<1000] @ map LoadFailed [1000..<1345])
      (constructor example_document example_window)) = 1
   \<and> notifications (deliver_all example_window
      (map (\<lambda>k. LoadSucceeded k 400 300) [0..<1000] @ map LoadFailed [1000..<1344])
      (constructor example_document example_window)) = 0"
proof -
  let ?all = "map (\<lambda>k. LoadSucceeded k 400 300) [0..<1000] @ map LoadFailed [1000..<1345]"
  let ?most = "map (\<lambda>k. LoadSucceeded k 400 300) [0..<1000] @ map LoadFailed [1000..<1344]"
  have l: "length ?all = 1345" "length ?most = 1344"
    by simp_all
  have "notifications (deliver_all example_window ?all (constructor example_document example_window))
      = (if FRAME_MAX_INDEX \<le> length ?all then 1 else 0)"
    using all_loaded_fires_once [of example_window _ _ _ ?all example_document example_window]
    by (rule conjunct1 [OF conjunct2 [OF conjunct2 [OF conjunct2 [OF conjunct2]]]])
  moreover have "notifications (deliver_all example_window ?most (constructor example_document example_window))
      = (if FRAME_MAX_INDEX \<le> length ?most then 1 else 0)"
    using all_loaded_fires_once [of example_window _ _ _ ?most example_document example_window]
    by (rule conjunct1 [OF conjunct2 [OF conjunct2 [OF conjunct2 [OF conjunct2]]]])
  ultimately show ?thesis
    by (simp only: l FRAME_MAX_INDEX_def) simp
qed



text \<open>
  C4. In every state, \<^verbatim>\<open>loadImage\<close> (and \<^verbatim>\<open>loadFrame\<close>) with index -1 or with
  index maxIndex + 1 returns the object unchanged, surface and cursor included, and throws
  nothing.
\<close>

theorem loadImage_out_of_range_noop:
  "loadImage win s (Fin (- 1)) = (s, None)
   \<and> loadImage win s (Fin (real (maxIndex (frames s) + 1))) = (s, None)
   \<and> loadFrame win (Fin (- 1)) s = (s, None)
   \<and> loadFrame win (Fin (real (maxIndex (frames s) + 1))) s = (s, None)"
  by (simp add: loadImage_def loadFrame_def isValidFrameIndex_def js_ge_def)

theorem loadImage_out_of_range_noop_witness:
  "loadImage example_window (constructor example_document example_window) (Fin 1346)
     = (constructor example_document example_window, None)"
  using loadImage_out_of_range_noop [of example_window "constructor example_document example_window"]
  by (simp add: example_constructor FRAME_MAX_INDEX_def)

text \<open>
  C5, as stated, fails where the image of a slot has failed to load: in the complete run the
  image of slot 1 is \<^verbatim>\<open>frame_0002.jpeg\<close> and is broken, and \<^verbatim>\<open>loadImage(1)\<close> leaves a
  blank canvas, with nothing drawn.
\<close>

theorem frame_file_offset_counterexample:
  "(1::nat) < maxIndex (frames example_ready)
   \<and> img_src (images example_ready ! 1) = ''./images/frame_0002.jpeg''
   \<and> canvas (fst (loadImage example_window example_ready (Fin 1))) =
       Some \<lparr>width = 800, height = 600, bitmap = []\<rparr>"
proof -
  have "images example_ready ! 1 = \<lparr>img_src = ''./images/frame_0002.jpeg'', img_request = Broken\<rparr>"
    by (simp only: example_ready_fields example_images_1)
  then have "img_src (images example_ready ! 1) = ''./images/frame_0002.jpeg''"
    by (simp only: html_image.simps)
  moreover have "(1::nat) < maxIndex (frames example_ready)"
    by (simp add: example_ready_fields)
  moreover have "canvas (fst (loadImage example_window example_ready (Fin 1))) =
       Some \<lparr>width = 800, height = 600, bitmap = []\<rparr>"
    by (simp add: example_loadImage_1)
  ultimately show ?thesis
    by (intro conjI)
qed

text \<open>
  C5, amended. With the array as \<^verbatim>\<open>preloadImages\<close> builds it and N = 1345, slot k < N
  holds the image whose locator is \<^verbatim>\<open>frame_\<close>(k + 1 padded to four digits)\<^verbatim>\<open>.jpeg\<close>,
  and when that image has loaded, rendering index k draws it and sets the cursor to k.
  Slot 0 holds \<^verbatim>\<open>frame_0001.jpeg\<close>, which is what the initial render of
  \<^verbatim>\<open>onAllImagesLoaded\<close> draws at cursor 0 when it has loaded, and \<^verbatim>\<open>frame_1345.jpeg\<close>
  is held by slot 1344 only.
\<close>

theorem frame_file_offset:
  assumes srcs: "map img_src (images s) = map generateImageUrl [1..<Suc (maxIndex (frames s))]"
    and N: "maxIndex (frames s) = FRAME_MAX_INDEX"
    and k: "k < maxIndex (frames s)"
    and c: "canvas s = Some c" and ctx: "drawing_context s = Some ctx"
  shows "img_src (images s ! k) = ''./images/frame_'' @ zero_padded4 (k + 1) @ ''.jpeg''
     \<and> array_get (images s) (Fin (real k)) = Some (images s ! k)
     \<and> (img_request (images s ! k) = CompletelyAvailable w h \<and> 0 < w \<and> 0 < h \<longrightarrow>
        loadImage win s (Fin (real k)) =
          (s\<lparr>canvas := Some \<lparr>width = innerWidth win, height = innerHeight win,
               bitmap = draw_at (''./images/frame_'' @ zero_padded4 (k + 1) @ ''.jpeg'')
                 (offsetX (render_geometry (innerWidth win) (innerHeight win) (images s ! k)))
                 (offsetY (render_geometry (innerWidth win) (innerHeight win) (images s ! k)))
                 (newWidth (render_geometry (innerWidth win) (innerHeight win) (images s ! k)))
                 (newHeight (render_geometry (innerWidth win) (innerHeight win) (images s ! k)))\<rparr>,
             drawing_context := Some \<lparr>imageSmoothingEnabled = True, imageSmoothingQuality = High\<rparr>,
             frames := (frames s)\<lparr>currentIndex := Fin (real k)\<rparr>\<rparr>, None))
     \<and> (img_request (images s ! k) = CompletelyAvailable w h \<and> 0 < w \<and> 0 < h
          \<and> innerWidth win < 2 ^ 32 \<and> innerHeight win < 2 ^ 32 \<and> w < 2 ^ 32 \<and> h < 2 ^ 32 \<longrightarrow>
        (\<exists>x y dw dh. canvas (fst (loadImage win s (Fin (real k)))) =
           Some \<lparr>width = innerWidth win, height = innerHeight win,
             bitmap = [DrawImage (''./images/frame_'' @ zero_padded4 (k + 1) @ ''.jpeg'') x y dw dh]\<rparr>))
     \<and> img_src (images s ! 0) = ''./images/frame_0001.jpeg''
     \<and> (\<forall>j<maxIndex (frames s). (img_src (images s ! j) = ''./images/frame_1345.jpeg'') = (j = 1344))
     \<and> (currentIndex (frames s) = Fin 0
          \<and> img_request (images s ! 0) = CompletelyAvailable w h \<and> 0 < w \<and> 0 < h \<longrightarrow>
          canvas (fst (onAllImagesLoaded win s)) =
            Some \<lparr>width = innerWidth win, height = innerHeight win,
              bitmap = draw_at ''./images/frame_0001.jpeg''
                (offsetX (render_geometry (innerWidth win) (innerHeight win) (images s ! 0)))
                (offsetY (render_geometry (innerWidth win) (innerHeight win) (images s ! 0)))
                (newWidth (render_geometry (innerWidth win) (innerHeight win) (images s ! 0)))
                (newHeight (render_geometry (innerWidth win) (innerHeight win) (images s ! 0)))\<rparr>)"
proof -
  have len: "length (images s) = maxIndex (frames s)"
    using arg_cong [OF srcs, of length] by simp
  have src: "img_src (images s ! j) = generateImageUrl (Suc j)" if "j < maxIndex (frames s)" for j
    using srcs that by (rule srcs_nth)
  have small: "Suc j < 10000" if "j < maxIndex (frames s)" for j
    using that by (simp add: N FRAME_MAX_INDEX_def)
  have 1: "img_src (images s ! k) = ''./images/frame_'' @ zero_padded4 (k + 1) @ ''.jpeg''"
    using src [OF k] small [OF k] by (simp add: generateImageUrl_padded)
  have v: "isValidFrameIndex s (Fin (real k))"
    using k by (simp add: isValidFrameIndex_def js_ge_def)
  have a: "array_get (images s) (Fin (real k)) = Some (images s ! k)"
    using k len by (intro array_get_nat) simp
  have 2: "loadImage win s (Fin (real k)) =
          (s\<lparr>canvas := Some \<lparr>width = innerWidth win, height = innerHeight win,
               bitmap = draw_at (''./images/frame_'' @ zero_padded4 (k + 1) @ ''.jpeg'')
                 (offsetX (render_geometry (innerWidth win) (innerHeight win) (images s ! k)))
                 (offsetY (render_geometry (innerWidth win) (innerHeight win) (images s ! k)))
                 (newWidth (render_geometry (innerWidth win) (innerHeight win) (images s ! k)))
                 (newHeight (render_geometry (innerWidth win) (innerHeight win) (images s ! k)))\<rparr>,
             drawing_context := Some \<lparr>imageSmoothingEnabled = True, imageSmoothingQuality = High\<rparr>,
             frames := (frames s)\<lparr>currentIndex := Fin (real k)\<rparr>\<rparr>, None)"
    if r: "img_request (images s ! k) = CompletelyAvailable w h" and w: "0 < w" and h: "0 < h"
    unfolding loadImage_drawable [OF c ctx v a r w h] 1 ..
  have pos: "0 < maxIndex (frames s)"
    using k by simp
  have 3: "img_src (images s ! 0) = ''./images/frame_0001.jpeg''"
    using src [OF pos] by (simp add: generateImageUrl_1)
  have 4: "(img_src (images s ! j) = ''./images/frame_1345.jpeg'') = (j = 1344)"
    if j: "j < maxIndex (frames s)" for j
  proof
    assume "img_src (images s ! j) = ''./images/frame_1345.jpeg''"
    then have "generateImageUrl (Suc j) = generateImageUrl 1345"
      using src [OF j] by (simp add: generateImageUrl_1345)
    with small [OF j] have "Suc j = 1345"
      by (intro generateImageUrl_inj) simp_all
    then show "j = 1344"
      by simp
  next
    assume "j = 1344"
    then show "img_src (images s ! j) = ''./images/frame_1345.jpeg''"
      using src [OF j] by (simp add: generateImageUrl_1345)
  qed
  have 5: "canvas (fst (onAllImagesLoaded win s)) =
            Some \<lparr>width = innerWidth win, height = innerHeight win,
              bitmap = draw_at ''./images/frame_0001.jpeg''
                (offsetX (render_geometry (innerWidth win) (innerHeight win) (images s ! 0)))
                (offsetY (render_geometry (innerWidth win) (innerHeight win) (images s ! 0)))
                (newWidth (render_geometry (innerWidth win) (innerHeight win) (images s ! 0)))
                (newHeight (render_geometry (innerWidth win) (innerHeight win) (images s ! 0)))\<rparr>"
    if cur: "currentIndex (frames s) = Fin 0"
      and r: "img_request (images s ! 0) = CompletelyAvailable w h" and w: "0 < w" and h: "0 < h"
  proof -
    let ?s1 = "s\<lparr>isInitialized := True, notifications := notifications s + 1\<rparr>"
    have "fst (onAllImagesLoaded win s) = fst (loadImage win ?s1 (Fin 0))"
      by (simp add: onAllImagesLoaded_def Let_def fst_and_then_startAnimation cur)
    moreover have "loadImage win ?s1 (Fin 0) =
        (?s1\<lparr>canvas := Some \<lparr>width = innerWidth win, height = innerHeight win,
             bitmap = draw_at (img_src (images s ! 0))
               (offsetX (render_geometry (innerWidth win) (innerHeight win) (images s ! 0)))
               (offsetY (render_geometry (innerWidth win) (innerHeight win) (images s ! 0)))
               (newWidth (render_geometry (innerWidth win) (innerHeight win) (images s ! 0)))
               (newHeight (render_geometry (innerWidth win) (innerHeight win) (images s ! 0)))\<rparr>,
           drawing_context := Some \<lparr>imageSmoothingEnabled = True, imageSmoothingQuality = High\<rparr>,
           frames := (frames ?s1)\<lparr>currentIndex := Fin 0\<rparr>\<rparr>, None)"
    proof (rule loadImage_drawable)
      show "canvas ?s1 = Some c" "drawing_context ?s1 = Some ctx"
        using c ctx by simp_all
      show "isValidFrameIndex ?s1 (Fin 0)"
        by (simp add: isValidFrameIndex_def js_ge_def)
      show "array_get (images ?s1) (Fin 0) = Some (images s ! 0)"
        using pos len by simp
    qed (rule r w h)+
    ultimately show ?thesis
      by (simp add: 3)
  qed
  have 6: "\<exists>x y dw dh. canvas (fst (loadImage win s (Fin (real k)))) =
           Some \<lparr>width = innerWidth win, height = innerHeight win,
             bitmap = [DrawImage (''./images/frame_'' @ zero_padded4 (k + 1) @ ''.jpeg'') x y dw dh]\<rparr>"
    if r: "img_request (images s ! k) = CompletelyAvailable w h" and w: "0 < w" and h: "0 < h"
      and b: "innerWidth win < 2 ^ 32" "innerHeight win < 2 ^ 32" "w < 2 ^ 32" "h < 2 ^ 32"
    using draw_at_finite [OF r w h b, of "''./images/frame_'' @ zero_padded4 (k + 1) @ ''.jpeg''"]
    unfolding 2 [OF r w h] by auto
  from 1 a 2 6 3 4 5 show ?thesis
    by blast
qed

theorem frame_file_offset_witness:
  "loadImage example_window example_ready (Fin 0) =
     (example_ready\<lparr>canvas := Some \<lparr>width = 800, height = 600,
          bitmap = [DrawImage ''./images/frame_0001.jpeg'' 0 0 800 600]\<rparr>\<rparr>, None)
   \<and> img_src (images example_ready ! 1344) = ''./images/frame_1345.jpeg''"
proof -
  have srcs: "map img_src (images example_ready)
      = map generateImageUrl [1..<Suc (maxIndex (frames example_ready))]"
    by (simp add: example_ready_fields fold_resolve_img_src initial_images_def FRAME_MAX_INDEX_def
        del: upt_Suc)
  have N: "maxIndex (frames example_ready) = FRAME_MAX_INDEX"
    by (simp add: example_ready_fields FRAME_MAX_INDEX_def)
  have k: "0 < maxIndex (frames example_ready)"
    by (simp add: example_ready_fields)
  have r: "img_request (images example_ready ! 0) = CompletelyAvailable 400 300"
    by (simp add: example_ready_fields example_images_0)
  note t = frame_file_offset [OF srcs N k example_ready_fields(1,2),
      where win = example_window and w = 400 and h = 300]
  have "loadImage example_window example_ready (Fin 0) =
     (example_ready\<lparr>canvas := Some \<lparr>width = 800, height = 600,
          bitmap = [DrawImage ''./images/frame_0001.jpeg'' 0 0 800 600]\<rparr>\<rparr>, None)"
    using r conjunct1 [OF conjunct2 [OF conjunct2 [OF t]]]
    by (simp add: example_window_def zero_padded4_def digit_char_def example_ready_eq
        render_geometry_800_600_400_300)
  moreover have "img_src (images example_ready ! 1344) = ''./images/frame_1345.jpeg''"
    using conjunct1 [OF conjunct2 [OF conjunct2 [OF conjunct2 [OF conjunct2 [OF conjunct2 [OF t]]]]]]
    by (simp add: example_ready_fields)
  ultimately show ?thesis
    by (rule conjI)
qed

text \<open>
  C6. When the array holds exactly maxIndex images, the index maxIndex passes
  \<^verbatim>\<open>isValidFrameIndex\<close> but the array has no element there, so \<^verbatim>\<open>loadImage\<close>
  returns the object unchanged. The indices that pass both guards are exactly the integers
  0, ..., maxIndex - 1.
\<close>

theorem loadImage_maxIndex_noop:
  assumes "length (images s) = maxIndex (frames s)"
  shows "isValidFrameIndex s (Fin (real (maxIndex (frames s))))
       \<and> array_get (images s) (Fin (real (maxIndex (frames s)))) = None
       \<and> loadImage win s (Fin (real (maxIndex (frames s)))) = (s, None)
       \<and> (\<forall>idx. (isValidFrameIndex s idx \<and> array_get (images s) idx \<noteq> None)
                = (\<exists>k<maxIndex (frames s). idx = Fin (real k)))"
proof -
  have a: "array_get (images s) (Fin (real (maxIndex (frames s)))) = None"
    using assms array_get_length[of "images s"] by simp
  have v: "isValidFrameIndex s (Fin (real (maxIndex (frames s))))"
    by (simp add: isValidFrameIndex_def js_ge_def)
  have "(isValidFrameIndex s idx \<and> array_get (images s) idx \<noteq> None)
                = (\<exists>k<maxIndex (frames s). idx = Fin (real k))" for idx
  proof -
    have "(\<exists>k<maxIndex (frames s). idx = Fin (real k)) \<Longrightarrow> isValidFrameIndex s idx"
      by (auto simp: isValidFrameIndex_def js_ge_def)
    then show ?thesis
      unfolding array_get_Some_iff assms by blast
  qed
  with a v show ?thesis
    by (simp add: loadImage_undefined)
qed

theorem loadImage_maxIndex_noop_witness:
  "length (images (constructor example_document example_window))
     = maxIndex (frames (constructor example_document example_window))
   \<and> loadImage example_window (constructor example_document example_window) (Fin 1345)
     = (constructor example_document example_window, None)"
  using loadImage_maxIndex_noop [of "constructor example_document example_window" example_window]
  by (simp add: example_constructor FRAME_MAX_INDEX_def)

text \<open>
  C7. For every i from 1 to N = 1345 the generated locator is
  \<^verbatim>\<open>./images/frame_\<close>p\<^verbatim>\<open>.jpeg\<close> where p is i zero-padded to exactly four decimal
  digits; i = 7 gives \<^verbatim>\<open>frame_0007.jpeg\<close> and i = 1345 gives \<^verbatim>\<open>frame_1345.jpeg\<close>.
\<close>

theorem generateImageUrl_format:
  assumes "1 \<le> i" and "i \<le> FRAME_MAX_INDEX"
  shows "generateImageUrl i = ''./images/frame_'' @ zero_padded4 i @ ''.jpeg''
       \<and> padStart FRAME_PADDING ''0'' (toString i) = zero_padded4 i
       \<and> length (zero_padded4 i) = 4
       \<and> generateImageUrl 7 = ''./images/frame_0007.jpeg''
       \<and> generateImageUrl 1345 = ''./images/frame_1345.jpeg''"
proof -
  have i: "i < 10000"
    using assms by (simp add: FRAME_MAX_INDEX_def)
  have "generateImageUrl i = ''./images/frame_'' @ zero_padded4 i @ ''.jpeg''"
    using i by (rule generateImageUrl_padded)
  moreover have "padStart FRAME_PADDING ''0'' (toString i) = zero_padded4 i"
    using i by (rule padStart_toString)
  moreover have "length (zero_padded4 i) = 4"
    by (simp add: zero_padded4_def)
  moreover have "generateImageUrl 7 = ''./images/frame_0007.jpeg''"
    by (simp add: generateImageUrl_padded zero_padded4_def digit_char_def)
  moreover have "generateImageUrl 1345 = ''./images/frame_1345.jpeg''"
    by (simp add: generateImageUrl_padded zero_padded4_def digit_char_def)
  ultimately show ?thesis
    by simp
qed

theorem generateImageUrl_format_witness:
  "(1::nat) \<le> 42 \<and> 42 \<le> FRAME_MAX_INDEX \<and> generateImageUrl 42 = ''./images/frame_0042.jpeg''"
  using generateImageUrl_format [of 42]
  by (simp add: FRAME_MAX_INDEX_def zero_padded4_def digit_char_def)

text \<open>
  C8. The cursor starts at 0, inside [0, maxIndex]. Every method of the class keeps it
  inside: \<^verbatim>\<open>loadImage\<close> leaves it alone or assigns an index that has passed
  \<^verbatim>\<open>isValidFrameIndex\<close>, and the other methods change it through \<^verbatim>\<open>loadImage\<close>
  only. The same holds for a tick of the animation engine that writes an in-range value and
  calls \<^verbatim>\<open>onUpdate\<close>; the frame targets of the timeline are all in range.
\<close>

theorem cursor_stays_in_range:
  "currentIndex (frames (constructor doc win)) = Fin 0
   \<and> cursor_in_range (constructor doc win)
   \<and> cursor_in_range s = isValidFrameIndex s (currentIndex (frames s))
   \<and> (cursor_in_range s \<longrightarrow>
        cursor_in_range (fst (loadImage win s idx))
      \<and> cursor_in_range (fst (loadFrame win idx s))
      \<and> cursor_in_range (fst (handleResize win s))
      \<and> cursor_in_range (fst (onUpdate win s))
      \<and> cursor_in_range (fst (onAllImagesLoaded win s))
      \<and> cursor_in_range (fst (handleImageLoad win s))
      \<and> cursor_in_range (fst (handleImageLoadError win i s))
      \<and> cursor_in_range (fst (resizeCanvas win s))
      \<and> cursor_in_range (deliver_all win es s))
   \<and> (currentIndex (frames (fst (loadImage win s idx))) = currentIndex (frames s)
      \<or> currentIndex (frames (fst (loadImage win s idx))) = idx \<and> isValidFrameIndex s idx)
   \<and> (isValidFrameIndex s v \<longrightarrow>
        cursor_in_range (fst (onUpdate win (s\<lparr>frames := (frames s)\<lparr>currentIndex := v\<rparr>\<rparr>))))
   \<and> list_all (\<lambda>t. isValidFrameIndex (constructor doc win) (Fin (real t))) frame_targets"
proof -
  have t: "list_all (\<lambda>t. isValidFrameIndex (constructor doc win) (Fin (real t))) frame_targets"
    by (simp add: frame_targets_def isValidFrameIndex_def js_ge_def constructor_counters
        FRAME_MAX_INDEX_def)
  have u: "cursor_in_range (fst (onUpdate win (s\<lparr>frames := (frames s)\<lparr>currentIndex := v\<rparr>\<rparr>)))"
    if "isValidFrameIndex s v"
  proof -
    have "cursor_in_range (s\<lparr>frames := (frames s)\<lparr>currentIndex := v\<rparr>\<rparr>)"
      using that by (simp add: cursor_in_range_iff isValidFrameIndex_def)
    then show ?thesis
      unfolding onUpdate_def by (rule loadImage_cursor)
  qed
  have p: "cursor_in_range (fst (loadImage win s idx))
      \<and> cursor_in_range (fst (loadFrame win idx s))
      \<and> cursor_in_range (fst (handleResize win s))
      \<and> cursor_in_range (fst (onUpdate win s))
      \<and> cursor_in_range (fst (onAllImagesLoaded win s))
      \<and> cursor_in_range (fst (handleImageLoad win s))
      \<and> cursor_in_range (fst (handleImageLoadError win i s))
      \<and> cursor_in_range (fst (resizeCanvas win s))
      \<and> cursor_in_range (deliver_all win es s)"
    if c: "cursor_in_range s"
  proof -
    have l: "cursor_in_range (fst (loadImage win s j))" for j
      using c by (rule loadImage_cursor)
    have "cursor_in_range (fst (loadFrame win idx s))"
      using c l by (simp add: loadFrame_def)
    moreover have "cursor_in_range (fst (handleResize win s))"
      using c l by (simp add: handleResize_def)
    moreover have "cursor_in_range (fst (onUpdate win s))"
      using l by (simp add: onUpdate_def)
    moreover have "cursor_in_range (fst (handleImageLoadError win i s))"
      using c by (simp add: handleImageLoadError_eq handleImageLoad_cursor)
    moreover note l [of idx] onAllImagesLoaded_cursor [OF c] handleImageLoad_cursor [OF c]
      resizeCanvas_cursor [OF c] deliver_all_cursor [OF c]
    ultimately show ?thesis
      by blast
  qed
  have "currentIndex (frames (constructor doc win)) = Fin 0"
    by (simp add: constructor_counters)
  moreover note constructor_cursor [of doc win] cursor_in_range_iff [of s]
    loadImage_currentIndex [of win s idx]
  moreover have "cursor_in_range s \<longrightarrow>
        cursor_in_range (fst (loadImage win s idx))
      \<and> cursor_in_range (fst (loadFrame win idx s))
      \<and> cursor_in_range (fst (handleResize win s))
      \<and> cursor_in_range (fst (onUpdate win s))
      \<and> cursor_in_range (fst (onAllImagesLoaded win s))
      \<and> cursor_in_range (fst (handleImageLoad win s))
      \<and> cursor_in_range (fst (handleImageLoadError win i s))
      \<and> cursor_in_range (fst (resizeCanvas win s))
      \<and> cursor_in_range (deliver_all win es s)"
    using p by (rule impI)
  moreover have "isValidFrameIndex s v \<longrightarrow>
        cursor_in_range (fst (onUpdate win (s\<lparr>frames := (frames s)\<lparr>currentIndex := v\<rparr>\<rparr>)))"
    using u by (rule impI)
  ultimately show ?thesis
    using t by (intro conjI)
qed

theorem cursor_stays_in_range_witness:
  "cursor_in_range example_ready
   \<and> cursor_in_range (fst (loadImage example_window example_ready (Fin 1)))
   \<and> cursor_in_range (fst (loadImage example_window example_ready (Fin 2000)))"
proof -
  have c: "cursor_in_range example_ready"
    by (simp add: cursor_in_range_def example_ready_fields)
  have "cursor_in_range (fst (loadImage example_window example_ready idx))" for idx
    using c conjunct1 [OF conjunct2 [OF conjunct2 [OF conjunct2 [OF cursor_stays_in_range
      [where s = example_ready and win = example_window and idx = idx]]]]]
    by (simp only:)
  with c show ?thesis
    by simp
qed

text \<open>
  C9. Before the all-resolved notification (\<open>isInitialized\<close> false) \<^verbatim>\<open>handleResize\<close>
  returns the object unchanged and throws nothing, in every state. Afterwards it is
  \<^verbatim>\<open>loadImage\<close> at the floor of the cursor: the canvas takes the dimensions of the
  window and the frame is drawn again at the geometry \<^verbatim>\<open>renderImage\<close> computes from
  these dimensions (one image on the blank canvas, for dimensions that fit in 32 bits). After any
  deliveries to a new object, \<open>isInitialized\<close> holds exactly when the notification has fired.
\<close>

theorem handleResize_gated:
  "(\<not> isInitialized s \<longrightarrow> handleResize win s = (s, None))
   \<and> (isInitialized s \<longrightarrow>
        handleResize win s = loadImage win s (js_floor (currentIndex (frames s))))
   \<and> (isInitialized s \<and> canvas s = Some c \<and> drawing_context s = Some ctx
        \<and> currentIndex (frames s) = Fin r \<and> 0 \<le> r \<and> nat \<lfloor>r\<rfloor> < length (images s)
        \<and> nat \<lfloor>r\<rfloor> \<le> maxIndex (frames s)
        \<and> img_request (images s ! nat \<lfloor>r\<rfloor>) = CompletelyAvailable w h \<and> 0 < w \<and> 0 < h \<longrightarrow>
        handleResize win s =
          (s\<lparr>canvas := Some \<lparr>width = innerWidth win, height = innerHeight win,
               bitmap = draw_at (img_src (images s ! nat \<lfloor>r\<rfloor>))
                 (offsetX (render_geometry (innerWidth win) (innerHeight win) (images s ! nat \<lfloor>r\<rfloor>)))
                 (offsetY (render_geometry (innerWidth win) (innerHeight win) (images s ! nat \<lfloor>r\<rfloor>)))
                 (newWidth (render_geometry (innerWidth win) (innerHeight win) (images s ! nat \<lfloor>r\<rfloor>)))
                 (newHeight (render_geometry (innerWidth win) (innerHeight win) (images s ! nat \<lfloor>r\<rfloor>)))\<rparr>,
             drawing_context := Some \<lparr>imageSmoothingEnabled = True, imageSmoothingQuality = High\<rparr>,
             frames := (frames s)\<lparr>currentIndex := Fin (of_int \<lfloor>r\<rfloor>)\<rparr>\<rparr>, None))
   \<and> isInitialized (deliver_all win0 es (constructor doc win0)) =
       (0 < notifications (deliver_all win0 es (constructor doc win0)))
   \<and> (isInitialized s \<and> canvas s = Some c \<and> drawing_context s = Some ctx
        \<and> currentIndex (frames s) = Fin r \<and> 0 \<le> r \<and> nat \<lfloor>r\<rfloor> < length (images s)
        \<and> nat \<lfloor>r\<rfloor> \<le> maxIndex (frames s)
        \<and> img_request (images s ! nat \<lfloor>r\<rfloor>) = CompletelyAvailable w h \<and> 0 < w \<and> 0 < h
        \<and> innerWidth win < 2 ^ 32 \<and> innerHeight win < 2 ^ 32 \<and> w < 2 ^ 32 \<and> h < 2 ^ 32 \<longrightarrow>
        (\<exists>x y dw dh. canvas (fst (handleResize win s)) =
           Some \<lparr>width = innerWidth win, height = innerHeight win,
             bitmap = [DrawImage (img_src (images s ! nat \<lfloor>r\<rfloor>)) x y dw dh]\<rparr>))"
proof -
  have 1: "\<not> isInitialized s \<longrightarrow> handleResize win s = (s, None)"
    by (simp add: handleResize_def)
  have 2: "isInitialized s \<longrightarrow>
        handleResize win s = loadImage win s (js_floor (currentIndex (frames s)))"
    by (simp add: handleResize_def)
  have 3: "handleResize win s =
          (s\<lparr>canvas := Some \<lparr>width = innerWidth win, height = innerHeight win,
               bitmap = draw_at (img_src (images s ! nat \<lfloor>r\<rfloor>))
                 (offsetX (render_geometry (innerWidth win) (innerHeight win) (images s ! nat \<lfloor>r\<rfloor>)))
                 (offsetY (render_geometry (innerWidth win) (innerHeight win) (images s ! nat \<lfloor>r\<rfloor>)))
                 (newWidth (render_geometry (innerWidth win) (innerHeight win) (images s ! nat \<lfloor>r\<rfloor>)))
                 (newHeight (render_geometry (innerWidth win) (innerHeight win) (images s ! nat \<lfloor>r\<rfloor>)))\<rparr>,
             drawing_context := Some \<lparr>imageSmoothingEnabled = True, imageSmoothingQuality = High\<rparr>,
             frames := (frames s)\<lparr>currentIndex := Fin (of_int \<lfloor>r\<rfloor>)\<rparr>\<rparr>, None)"
    if h: "isInitialized s" "canvas s = Some c" "drawing_context s = Some ctx"
      "currentIndex (frames s) = Fin r" "0 \<le> r" "nat \<lfloor>r\<rfloor> < length (images s)"
      "nat \<lfloor>r\<rfloor> \<le> maxIndex (frames s)"
      "img_request (images s ! nat \<lfloor>r\<rfloor>) = CompletelyAvailable w h" "0 < w" "0 < h"
  proof -
    have fl: "real_of_int \<lfloor>r\<rfloor> = real (nat \<lfloor>r\<rfloor>)"
      using h(5) by simp
    have v: "isValidFrameIndex s (Fin (real (nat \<lfloor>r\<rfloor>)))"
      using h(7) by (simp add: isValidFrameIndex_def js_ge_def)
    have a: "array_get (images s) (Fin (real (nat \<lfloor>r\<rfloor>))) = Some (images s ! nat \<lfloor>r\<rfloor>)"
      using h(6) by (rule array_get_nat)
    have "handleResize win s = loadImage win s (Fin (real (nat \<lfloor>r\<rfloor>)))"
      using h(1,4) by (simp add: handleResize_def fl)
    also have "\<dots> =
          (s\<lparr>canvas := Some \<lparr>width = innerWidth win, height = innerHeight win,
               bitmap = draw_at (img_src (images s ! nat \<lfloor>r\<rfloor>))
                 (offsetX (render_geometry (innerWidth win) (innerHeight win) (images s ! nat \<lfloor>r\<rfloor>)))
                 (offsetY (render_geometry (innerWidth win) (innerHeight win) (images s ! nat \<lfloor>r\<rfloor>)))
                 (newWidth (render_geometry (innerWidth win) (innerHeight win) (images s ! nat \<lfloor>r\<rfloor>)))
                 (newHeight (render_geometry (innerWidth win) (innerHeight win) (images s ! nat \<lfloor>r\<rfloor>)))\<rparr>,
             drawing_context := Some \<lparr>imageSmoothingEnabled = True, imageSmoothingQuality = High\<rparr>,
             frames := (frames s)\<lparr>currentIndex := Fin (real (nat \<lfloor>r\<rfloor>))\<rparr>\<rparr>, None)"
      using h(2,3) v a h(8,9,10) by (rule loadImage_drawable)
    finally show ?thesis
      by (simp add: fl)
  qed
  have 4: "isInitialized (deliver_all win0 es (constructor doc win0)) =
       (0 < notifications (deliver_all win0 es (constructor doc win0)))"
    by (simp add: deliver_all_counts constructor_counters)
  have 5: "\<exists>x y dw dh. canvas (fst (handleResize win s)) =
           Some \<lparr>width = innerWidth win, height = innerHeight win,
             bitmap = [DrawImage (img_src (images s ! nat \<lfloor>r\<rfloor>)) x y dw dh]\<rparr>"
    if h: "isInitialized s" "canvas s = Some c" "drawing_context s = Some ctx"
      "currentIndex (frames s) = Fin r" "0 \<le> r" "nat \<lfloor>r\<rfloor> < length (images s)"
      "nat \<lfloor>r\<rfloor> \<le> maxIndex (frames s)"
      "img_request (images s ! nat \<lfloor>r\<rfloor>) = CompletelyAvailable w h" "0 < w" "0 < h"
      and b: "innerWidth win < 2 ^ 32" "innerHeight win < 2 ^ 32" "w < 2 ^ 32" "h < 2 ^ 32"
    using draw_at_finite [OF h(8,9,10) b, of "img_src (images s ! nat \<lfloor>r\<rfloor>)"]
    unfolding 3 [OF h] by auto
  from 1 2 3 4 5 show ?thesis
    by blast
qed

theorem handleResize_gated_witness:
  "handleResize \<lparr>innerWidth = 1000, innerHeight = 500\<rparr> (constructor example_document example_window)
     = (constructor example_document example_window, None)
   \<and> handleResize \<lparr>innerWidth = 1000, innerHeight = 500\<rparr> example_ready =
       (example_ready\<lparr>canvas := Some \<lparr>width = 1000, height = 500,
            bitmap = [DrawImage ''./images/frame_0001.jpeg'' 0 (- 125) 1000 750]\<rparr>\<rparr>, None)"
proof -
  let ?win = "\<lparr>innerWidth = 1000, innerHeight = 500\<rparr>"
  let ?c = "\<lparr>width = 800, height = 600, bitmap = [DrawImage ''./images/frame_0001.jpeg'' 0 0 800 600]\<rparr>"
  let ?ctx = "\<lparr>imageSmoothingEnabled = True, imageSmoothingQuality = High\<rparr>"
  have a: "\<not> isInitialized (constructor example_document example_window)"
    by (simp add: constructor_counters)
  have b: "isInitialized example_ready \<and> canvas example_ready = Some ?c
      \<and> drawing_context example_ready = Some ?ctx
      \<and> currentIndex (frames example_ready) = Fin 0 \<and> (0::real) \<le> 0
      \<and> nat \<lfloor>0::real\<rfloor> < length (images example_ready)
      \<and> nat \<lfloor>0::real\<rfloor> \<le> maxIndex (frames example_ready)
      \<and> img_request (images example_ready ! nat \<lfloor>0::real\<rfloor>) = CompletelyAvailable 400 300
      \<and> (0::nat) < 400 \<and> (0::nat) < 300"
    by (simp add: example_ready_length) (simp add: example_ready_fields example_images_0)
  have "handleResize ?win (constructor example_document example_window)
      = (constructor example_document example_window, None)"
    using a conjunct1 [OF handleResize_gated
        [where s = "constructor example_document example_window" and win = ?win]]
    by blast
  moreover have "handleResize ?win example_ready =
       (example_ready\<lparr>canvas := Some \<lparr>width = 1000, height = 500,
            bitmap = [DrawImage ''./images/frame_0001.jpeg'' 0 (- 125) 1000 750]\<rparr>\<rparr>, None)"
    using b conjunct1 [OF conjunct2 [OF conjunct2 [OF handleResize_gated
        [where s = example_ready and win = ?win and c = ?c and ctx = ?ctx and r = 0
           and w = 400 and h = 300]]]]
    by (simp add: example_ready_fields example_images_0 example_ready_eq
        render_geometry_1000_500_400_300)
  ultimately show ?thesis
    by (rule conjI)
qed

text \<open>
  C10. After two resizes, to the windows \<open>win1\<close> and then \<open>win2\<close>, rendering a drawable
  frame in the window \<open>win2\<close> gives a canvas of the dimensions of \<open>win2\<close> with the image
  drawn at the geometry computed from \<open>win2\<close>; nothing of \<open>win1\<close> or of the earlier
  canvas remains. In any window, the result of rendering is the same as without the resizes.
  For dimensions that fit in 32 bits, what is drawn is one image on the blank canvas.
\<close>

theorem render_uses_latest_viewport:
  assumes "canvas s = Some c" and "drawing_context s = Some ctx"
    and "isValidFrameIndex s idx" and "array_get (images s) idx = Some img"
    and "img_request img = CompletelyAvailable w h" and "0 < w" and "0 < h"
  shows "loadImage win2 (fst (resizeCanvas win2 (fst (resizeCanvas win1 s)))) idx =
       (s\<lparr>canvas := Some \<lparr>width = innerWidth win2, height = innerHeight win2,
            bitmap = draw_at (img_src img)
              (offsetX (render_geometry (innerWidth win2) (innerHeight win2) img))
              (offsetY (render_geometry (innerWidth win2) (innerHeight win2) img))
              (newWidth (render_geometry (innerWidth win2) (innerHeight win2) img))
              (newHeight (render_geometry (innerWidth win2) (innerHeight win2) img))\<rparr>,
          drawing_context := Some \<lparr>imageSmoothingEnabled = True, imageSmoothingQuality = High\<rparr>,
          frames := (frames s)\<lparr>currentIndex := idx\<rparr>\<rparr>, None)
     \<and> loadImage win (fst (resizeCanvas win2 (fst (resizeCanvas win1 s)))) idx = loadImage win s idx
     \<and> (innerWidth win2 < 2 ^ 32 \<and> innerHeight win2 < 2 ^ 32 \<and> w < 2 ^ 32 \<and> h < 2 ^ 32 \<longrightarrow>
          (\<exists>x y dw dh.
             canvas (fst (loadImage win2 (fst (resizeCanvas win2 (fst (resizeCanvas win1 s)))) idx)) =
               Some \<lparr>width = innerWidth win2, height = innerHeight win2,
                 bitmap = [DrawImage (img_src img) x y dw dh]\<rparr>))"
proof -
  let ?s2 = "fst (resizeCanvas win2 (fst (resizeCanvas win1 s)))"
  have s2: "?s2 = s\<lparr>canvas := Some \<lparr>width = innerWidth win2, height = innerHeight win2, bitmap = []\<rparr>,
      drawing_context := Some default_context\<rparr>"
    using assms(1,2) by (simp add: resizeCanvas_def)
  have h: "canvas ?s2 = Some \<lparr>width = innerWidth win2, height = innerHeight win2, bitmap = []\<rparr>"
    "drawing_context ?s2 = Some default_context"
    "isValidFrameIndex ?s2 idx" "array_get (images ?s2) idx = Some img"
    using assms(3,4) by (simp_all add: s2 isValidFrameIndex_def)
  have e: "loadImage win' ?s2 idx = loadImage win' s idx" for win'
    unfolding loadImage_drawable [OF h assms(5,6,7)] loadImage_drawable [OF assms]
    by (simp add: s2)
  have f: "\<exists>x y dw dh. canvas (fst (loadImage win2 ?s2 idx)) =
               Some \<lparr>width = innerWidth win2, height = innerHeight win2,
                 bitmap = [DrawImage (img_src img) x y dw dh]\<rparr>"
    if b: "innerWidth win2 < 2 ^ 32" "innerHeight win2 < 2 ^ 32" "w < 2 ^ 32" "h < 2 ^ 32"
    using draw_at_finite [OF assms(5,6,7) b, of "img_src img"]
    unfolding e loadImage_drawable [OF assms] by auto
  from e f show ?thesis
    by (simp add: loadImage_drawable [OF assms])
qed

theorem render_uses_latest_viewport_witness:
  "canvas (fst (loadImage \<lparr>innerWidth = 1000, innerHeight = 500\<rparr>
      (fst (resizeCanvas \<lparr>innerWidth = 1000, innerHeight = 500\<rparr>
         (fst (resizeCanvas \<lparr>innerWidth = 320, innerHeight = 480\<rparr> example_ready))))
      (Fin 0))) =
     Some \<lparr>width = 1000, height = 500,
        bitmap = [DrawImage ''./images/frame_0001.jpeg'' 0 (- 125) 1000 750]\<rparr>"
proof -
  have v: "isValidFrameIndex example_ready (Fin 0)"
    by (simp add: isValidFrameIndex_def js_ge_def)
  have a: "array_get (images example_ready) (Fin 0) = Some (images example_ready ! 0)"
    using array_get_nat [of 0 "images example_ready"] by (simp add: example_ready_length)
  have r: "img_request (images example_ready ! 0) = CompletelyAvailable 400 300"
    by (simp add: example_ready_fields example_images_0)
  show ?thesis
    using conjunct1 [OF render_uses_latest_viewport [OF example_ready_fields(1,2) v a r,
        where ?win2.0 = "\<lparr>innerWidth = 1000, innerHeight = 500\<rparr>"
          and ?win1.0 = "\<lparr>innerWidth = 320, innerHeight = 480\<rparr>"]]
    by (simp add: example_ready_fields example_images_0 render_geometry_1000_500_400_300)
qed

end
